theory Spec2Isabelle
  imports Main "HOL-Library.Log_Nat"
begin

section \<open>JavaScript values used by the dashboard\<close>

subsection \<open>Numbers\<close>

text \<open>
  Every numeric value of the component is an ECMAScript Number: an IEEE 754 binary64
  value. The finite ones are rationals, so a Number is modelled as a rational that is
  representable, one of the two infinities, or NaN. The sign of zero is not modelled:
  no operation of the component can tell \<open>-0\<close> from \<open>+0\<close>.
\<close>

datatype number = Fin rat | PosInf | NegInf | NaN

definition pow2 :: "int \<Rightarrow> rat" where
  "pow2 q = 2 powi q"

text \<open>\<open>ilog2 x\<close> is the binary exponent of a positive rational: \<open>2^e \<le> x < 2^(e+1)\<close>.\<close>

definition ilog2 :: "rat \<Rightarrow> int" where
  "ilog2 x =
     (if 1 \<le> x then bitlen \<lfloor>x\<rfloor> - 1
      else - bitlen (\<lceil>1 / x\<rceil> - 1))"

definition round_half_even :: "rat \<Rightarrow> int" where
  "round_half_even r =
     (let f = \<lfloor>r\<rfloor>; d = r - of_int f
      in if d < 1 / 2 then f
         else if 1 / 2 < d then f + 1
         else if even f then f else f + 1)"

text \<open>
  Rounding of a real result to binary64, round to nearest, ties to even: 53 significant
  bits, the least exponent of a unit in the last place is \<open>-1074\<close> (gradual underflow),
  and a rounded magnitude of \<open>2^1024\<close> or more overflows to an infinity.
\<close>

definition fl_rat :: "rat \<Rightarrow> rat" where
  "fl_rat x =
     (if x = 0 then 0
      else let q = max (ilog2 \<bar>x\<bar> - 52) (- 1074)
           in of_int (round_half_even (x / pow2 q)) * pow2 q)"

definition to_number :: "rat \<Rightarrow> number" where
  "to_number x =
     (let y = fl_rat x
      in if 2 ^ 1024 \<le> y then PosInf
         else if y \<le> - (2 ^ 1024) then NegInf
         else Fin y)"

text \<open>
  A counter that is only ever incremented from 0, once per element of an array, is kept
  as a natural number: an array has fewer than \<open>2^32\<close> elements, and \<open>++\<close> is exact
  below \<open>2^53\<close>. \<open>Num\<close> reads such a counter as a Number.
\<close>

definition Num :: "nat \<Rightarrow> number" where
  "Num n = Fin (of_nat n)"

fun js_add :: "number \<Rightarrow> number \<Rightarrow> number" where
  "js_add NaN _ = NaN"
| "js_add _ NaN = NaN"
| "js_add PosInf NegInf = NaN"
| "js_add NegInf PosInf = NaN"
| "js_add PosInf _ = PosInf"
| "js_add _ PosInf = PosInf"
| "js_add NegInf _ = NegInf"
| "js_add _ NegInf = NegInf"
| "js_add (Fin a) (Fin b) = to_number (a + b)"

fun js_mul :: "number \<Rightarrow> number \<Rightarrow> number" where
  "js_mul NaN _ = NaN"
| "js_mul _ NaN = NaN"
| "js_mul (Fin a) (Fin b) = to_number (a * b)"
| "js_mul (Fin a) PosInf = (if a = 0 then NaN else if 0 < a then PosInf else NegInf)"
| "js_mul (Fin a) NegInf = (if a = 0 then NaN else if 0 < a then NegInf else PosInf)"
| "js_mul PosInf (Fin b) = (if b = 0 then NaN else if 0 < b then PosInf else NegInf)"
| "js_mul NegInf (Fin b) = (if b = 0 then NaN else if 0 < b then NegInf else PosInf)"
| "js_mul PosInf PosInf = PosInf"
| "js_mul NegInf NegInf = PosInf"
| "js_mul PosInf NegInf = NegInf"
| "js_mul NegInf PosInf = NegInf"

text \<open>
  Division. A zero divisor here is always \<open>+0\<close> (a counter that was never incremented),
  so \<open>x / 0\<close> is an infinity of the sign of \<open>x\<close>, and \<open>0 / 0\<close> is NaN.
\<close>

fun js_div :: "number \<Rightarrow> number \<Rightarrow> number" where
  "js_div NaN _ = NaN"
| "js_div _ NaN = NaN"
| "js_div (Fin a) (Fin b) =
     (if b = 0 then (if a = 0 then NaN else if 0 < a then PosInf else NegInf)
      else to_number (a / b))"
| "js_div (Fin a) PosInf = Fin 0"
| "js_div (Fin a) NegInf = Fin 0"
| "js_div PosInf (Fin b) = (if 0 \<le> b then PosInf else NegInf)"
| "js_div NegInf (Fin b) = (if 0 \<le> b then NegInf else PosInf)"
| "js_div PosInf PosInf = NaN"
| "js_div PosInf NegInf = NaN"
| "js_div NegInf PosInf = NaN"
| "js_div NegInf NegInf = NaN"

text \<open>\<open>a > b\<close> on Numbers: false as soon as one side is NaN.\<close>

fun js_gt :: "number \<Rightarrow> number \<Rightarrow> bool" where
  "js_gt NaN _ = False"
| "js_gt _ NaN = False"
| "js_gt (Fin a) (Fin b) = (b < a)"
| "js_gt PosInf PosInf = False"
| "js_gt PosInf _ = True"
| "js_gt _ PosInf = False"
| "js_gt NegInf _ = False"
| "js_gt (Fin a) NegInf = True"

text \<open>
  \<open>Math.round\<close>: the integer nearest to the argument, a tie going up. Its result is
  exact: a binary64 value of magnitude \<open>2^52\<close> or more is an integer already.
\<close>

fun Math_round :: "number \<Rightarrow> number" where
  "Math_round (Fin x) = Fin (of_int \<lfloor>x + 1 / 2\<rfloor>)"
| "Math_round PosInf = PosInf"
| "Math_round NegInf = NegInf"
| "Math_round NaN = NaN"

subsection \<open>Strings\<close>

text \<open>
  A string is a list of 8-bit characters: the Latin-1 part of the UTF-16 code units of a
  JavaScript string. A string is falsy exactly when it is empty.
\<close>

definition is_digit :: "char \<Rightarrow> bool" where
  "is_digit c = (48 \<le> (of_char c :: nat) \<and> (of_char c :: nat) \<le> 57)"

definition is_white_space :: "char \<Rightarrow> bool" where
  "is_white_space c = ((of_char c :: nat) \<in> {9, 10, 11, 12, 13, 32, 160})"

text \<open>The value of a character as a digit of the radix \<open>R\<close>, when it is one.\<close>

definition digit_val :: "nat \<Rightarrow> char \<Rightarrow> nat option" where
  "digit_val R c =
     (let n = (of_char c :: nat);
          v = (if 48 \<le> n \<and> n \<le> 57 then Some (n - 48)
               else if 97 \<le> n \<and> n \<le> 122 then Some (n - 87)
               else if 65 \<le> n \<and> n \<le> 90 then Some (n - 55)
               else None)
      in case v of None \<Rightarrow> None | Some d \<Rightarrow> if d < R then Some d else None)"

definition digits_value :: "nat \<Rightarrow> string \<Rightarrow> int" where
  "digits_value R Z =
     foldl (\<lambda>acc c. acc * int R + (case digit_val R c of None \<Rightarrow> 0 | Some d \<Rightarrow> int d)) 0 Z"

text \<open>
  \<open>parseInt(string)\<close> with no radix argument: leading white space is dropped, a sign is
  read, a prefix \<open>0x\<close> or \<open>0X\<close> selects radix 16, and the longest prefix of digits of the
  radix is the value; with no digit the result is NaN. The mathematical value is then
  rounded to a Number.
\<close>

definition parseInt :: "string \<Rightarrow> number" where
  "parseInt inputString =
     (let S = dropWhile is_white_space inputString;
          neg = (S \<noteq> [] \<and> hd S = CHR ''-'');
          S1 = (if S \<noteq> [] \<and> (hd S = CHR ''+'' \<or> hd S = CHR ''-'') then tl S else S);
          hex = (take 2 S1 = ''0x'' \<or> take 2 S1 = ''0X'');
          R = (if hex then 16 else 10);
          S2 = (if hex then drop 2 S1 else S1);
          Z = takeWhile (\<lambda>c. digit_val R c \<noteq> None) S2
      in if Z = [] then NaN
         else to_number ((if neg then - 1 else 1) * of_int (digits_value R Z)))"

text \<open>
  \<open>string.match(/\d+/)\<close>: the leftmost maximal run of decimal digits, or \<open>null\<close>
  (here \<open>None\<close>) when the string has no digit.
\<close>

definition match_digits :: "string \<Rightarrow> string option" where
  "match_digits s =
     (let t = dropWhile (\<lambda>c. \<not> is_digit c) s
      in if t = [] then None else Some (takeWhile is_digit t))"

subsection \<open>Dates\<close>

text \<open>
  A \<open>Date\<close> object holds a time value: an integral number of milliseconds, or NaN for an
  invalid date (here \<open>None\<close>). What \<open>new Date(string)\<close> accepts beyond the ISO format is
  left to the implementation, and the local time zone belongs to the machine, so both
  are parameters of the model: \<open>Date_parse\<close> is \<open>Date.parse\<close>, and \<open>LocalTZA t\<close> is the
  offset of local time from UTC at the time \<open>t\<close>, in milliseconds.
\<close>

type_synonym Date = "int option"

record host =
  Date_parse :: "string \<Rightarrow> int option"
  LocalTZA :: "int \<Rightarrow> int"

definition new_Date :: "host \<Rightarrow> string \<Rightarrow> Date" where
  "new_Date h s = Date_parse h s"

text \<open>\<open>getHours()\<close>: the hour of the local time, or NaN (\<open>None\<close>) on an invalid date.\<close>

definition getHours :: "host \<Rightarrow> Date \<Rightarrow> nat option" where
  "getHours h d =
     (case d of
        None \<Rightarrow> None
      | Some t \<Rightarrow> Some (nat (((t + LocalTZA h t) div 3600000) mod 24)))"

text \<open>Two dates compare by their time values; a comparison with NaN is false.\<close>

definition date_lt :: "Date \<Rightarrow> Date \<Rightarrow> bool" where
  "date_lt a b = (case (a, b) of (Some x, Some y) \<Rightarrow> x < y | _ \<Rightarrow> False)"

definition date_gt :: "Date \<Rightarrow> Date \<Rightarrow> bool" where
  "date_gt a b = (case (a, b) of (Some x, Some y) \<Rightarrow> y < x | _ \<Rightarrow> False)"

subsection \<open>Objects used as dictionaries\<close>

text \<open>
  \<open>guardMetrics\<close> and \<open>locationCoverage\<close> are object literals \<open>{}\<close> indexed by a
  string. Such an object is the list of its own properties, in the order of their
  creation, and its prototype is \<open>Object.prototype\<close>: reading \<open>obj[k]\<close> for a key that is
  not an own property finds the property of that name of \<open>Object.prototype\<close> when there
  is one (a function, or the prototype itself for \<open>__proto__\<close>: a truthy object), and
  \<open>undefined\<close> otherwise. A write through such an inherited value lands on that shared
  object and creates no own property; what the page does once \<open>Object.prototype\<close>
  itself has been written through \<open>__proto__\<close> is not followed further.
\<close>

type_synonym 'v object = "(string \<times> 'v) list"

definition Object_prototype_names :: "string list" where
  "Object_prototype_names =
     [''constructor'', ''__defineGetter__'', ''__defineSetter__'', ''hasOwnProperty'',
      ''__lookupGetter__'', ''__lookupSetter__'', ''isPrototypeOf'',
      ''propertyIsEnumerable'', ''toString'', ''valueOf'', ''__proto__'',
      ''toLocaleString'']"

definition inherited :: "string \<Rightarrow> bool" where
  "inherited k = (k \<in> set Object_prototype_names)"

definition own :: "'v object \<Rightarrow> string \<Rightarrow> 'v option" where
  "own obj k = map_of obj k"

text \<open>\<open>truthy_at obj k\<close>: the test \<open>!obj[k]\<close> is false.\<close>

definition truthy_at :: "'v object \<Rightarrow> string \<Rightarrow> bool" where
  "truthy_at obj k = (own obj k \<noteq> None \<or> inherited k)"

definition define_own :: "'v object \<Rightarrow> string \<Rightarrow> 'v \<Rightarrow> 'v object" where
  "define_own obj k v = obj @ [(k, v)]"

text \<open>An in-place update of the object stored under the own property \<open>k\<close>.\<close>

definition modify_own :: "'v object \<Rightarrow> string \<Rightarrow> ('v \<Rightarrow> 'v) \<Rightarrow> 'v object" where
  "modify_own obj k f = map (\<lambda>(k', v). if k' = k then (k', f v) else (k', v)) obj"

text \<open>
  \<open>Object.values\<close> lists the own properties: first the keys that are array indices
  (canonical decimal numerals up to \<open>2^32 - 2\<close>) in ascending numeric order, then the
  other keys in the order of their creation.
\<close>

definition is_array_index :: "string \<Rightarrow> bool" where
  "is_array_index k =
     (k \<noteq> [] \<and> list_all is_digit k \<and> (hd k \<noteq> CHR ''0'' \<or> k = ''0'')
      \<and> digits_value 10 k \<le> 4294967294)"

definition Object_values :: "'v object \<Rightarrow> 'v list" where
  "Object_values obj =
     map snd (sort_key (\<lambda>p. digits_value 10 (fst p)) (filter (\<lambda>p. is_array_index (fst p)) obj))
     @ map snd (filter (\<lambda>p. \<not> is_array_index (fst p)) obj)"

text \<open>\<open>Set.prototype.add\<close> on a set kept as the list of its members.\<close>

definition Set_add :: "string list \<Rightarrow> string \<Rightarrow> string list" where
  "Set_add xs x = (if x \<in> set xs then xs else xs @ [x])"

section \<open>The data model\<close>

record ActivityRecord =
  Service_Number :: string
  User_Name :: string
  Date_Time :: string
  Activity :: string
  Post_Name :: string
  Location_Accuracy :: string
  Time_Accuracy :: string

record AttendanceRecord =
  Login_Date :: string
  Post_Name :: string
  Shift_Time :: string
  Full_Name :: string
  Service_Number :: string
  Late_Hours :: string
  Excess_Hours :: string
  No_of_Miss :: string

datatype status = normal | warning

record GuardStats =
  guard_id :: string
  name :: string
  post :: string
  activities :: nat
  locationAccuracy :: number
  locationIssues :: nat
  onTime :: bool
  missedScans :: nat
  lastActivity :: string
  status :: status

record LocationStats =
  name :: string
  totalScans :: nat
  accuracyIssues :: nat
  avgAccuracy :: nat
  coverageRate :: number

record Metrics =
  totalGuards :: nat
  onTimeRate :: number
  lateCheckIns :: nat
  earlyCheckouts :: nat
  locationErrors :: nat
  avgLocationAccuracy :: number
  totalShifts :: nat
  missedScans :: number

record ActivityData =
  hour :: nat
  count :: nat
  locationIssues :: nat

text \<open>The state of the component that the aggregation reads and writes.\<close>

record SecurityDashboard =
  metrics :: Metrics
  guardStats :: "GuardStats list"
  activityData :: "ActivityData list"
  locationStats :: "LocationStats list"
  startDate :: "Date option"
  endDate :: "Date option"
  activityDataRaw :: "ActivityRecord list"
  attendanceDataRaw :: "AttendanceRecord list"

datatype error = TypeError

section \<open>The activity aggregator\<close>

text \<open>The local variables of \<open>processActivityData\<close> that its loop updates.\<close>

record activity_vars =
  hourlyData :: "ActivityData list"
  uniqueGuards :: "string list"
  totalLocationAccuracy :: number
  locationReadings :: nat
  locationIssues :: nat
  guardMetrics :: "GuardStats object"

definition initial_activity_vars :: activity_vars where
  "initial_activity_vars =
     \<lparr> hourlyData =
         map (\<lambda>h. \<lparr> hour = h, count = 0, ActivityData.locationIssues = 0 \<rparr>) [0..<24],
       uniqueGuards = [],
       totalLocationAccuracy = Fin 0,
       locationReadings = 0,
       activity_vars.locationIssues = 0,
       guardMetrics = [] \<rparr>"

text \<open>The block "Track unique guards and their metrics", run for a non-empty service number.\<close>

definition track_guard :: "host \<Rightarrow> ActivityRecord \<Rightarrow> activity_vars \<Rightarrow> activity_vars" where
  "track_guard h activity v =
     (let sn = ActivityRecord.Service_Number activity;
          v1 = v\<lparr> uniqueGuards := Set_add (uniqueGuards v) sn \<rparr>;
          gm = guardMetrics v1;
          gm1 = (if \<not> truthy_at gm sn
                 then define_own gm sn
                        \<lparr> guard_id = sn,
                          GuardStats.name = User_Name activity,
                          post = ActivityRecord.Post_Name activity,
                          activities = 0,
                          locationAccuracy = Fin 0,
                          GuardStats.locationIssues = 0,
                          GuardStats.onTime = (Time_Accuracy activity = ''On Time''),
                          GuardStats.missedScans = 0,
                          lastActivity = Date_Time activity,
                          status = normal \<rparr>
                 else gm);
          gm2 = modify_own gm1 sn
                  (\<lambda>guard.
                     let g1 = guard\<lparr> activities := activities guard + 1 \<rparr>
                     in if date_gt (new_Date h (Date_Time activity)) (new_Date h (lastActivity g1))
                        then g1\<lparr> lastActivity := Date_Time activity \<rparr>
                        else g1)
      in v1\<lparr> guardMetrics := gm2 \<rparr>)"

text \<open>The block "Process location accuracy", for a record counted in the bucket \<open>hr\<close>.\<close>

definition process_location_accuracy :: "nat \<Rightarrow> ActivityRecord \<Rightarrow> activity_vars \<Rightarrow> activity_vars" where
  "process_location_accuracy hr activity v =
     (if Location_Accuracy activity = [] then v
      else case match_digits (Location_Accuracy activity) of
        None \<Rightarrow> v
      | Some accuracyMatch \<Rightarrow>
          let accuracy = parseInt accuracyMatch;
              v1 = v\<lparr> totalLocationAccuracy := js_add (totalLocationAccuracy v) accuracy,
                      locationReadings := locationReadings v + 1 \<rparr>
          in if js_gt accuracy (Fin 50)
             then
               let v2 = v1\<lparr> activity_vars.locationIssues := activity_vars.locationIssues v1 + 1,
                           hourlyData := (hourlyData v1)
                             [hr := (hourlyData v1 ! hr)
                                \<lparr> ActivityData.locationIssues :=
                                    ActivityData.locationIssues (hourlyData v1 ! hr) + 1 \<rparr>] \<rparr>
               in if ActivityRecord.Service_Number activity \<noteq> []
                  then v2\<lparr> guardMetrics :=
                          modify_own (guardMetrics v2) (ActivityRecord.Service_Number activity)
                            (\<lambda>g. g\<lparr> GuardStats.locationIssues := GuardStats.locationIssues g + 1,
                                    locationAccuracy := accuracy \<rparr>) \<rparr>
                  else v2
             else v1)"

text \<open>
  The body of \<open>data.forEach\<close>. \<open>hourlyData[hour]\<close> is \<open>undefined\<close> when \<open>hour\<close> is NaN or
  no index of the array, and \<open>undefined.count++\<close> throws a TypeError.
\<close>

definition activity_step :: "host \<Rightarrow> activity_vars \<Rightarrow> ActivityRecord \<Rightarrow> error + activity_vars" where
  "activity_step h v activity =
     (if Date_Time activity = [] then Inr v
      else case getHours h (new_Date h (Date_Time activity)) of
        None \<Rightarrow> Inl TypeError
      | Some hr \<Rightarrow>
          if length (hourlyData v) \<le> hr then Inl TypeError
          else
            let v1 = v\<lparr> hourlyData := (hourlyData v)
                         [hr := (hourlyData v ! hr)\<lparr> count := count (hourlyData v ! hr) + 1 \<rparr>] \<rparr>;
                v2 = (if ActivityRecord.Service_Number activity \<noteq> []
                      then track_guard h activity v1 else v1)
            in Inr (process_location_accuracy hr activity v2))"

fun activity_forEach :: "host \<Rightarrow> activity_vars \<Rightarrow> ActivityRecord list \<Rightarrow> error + activity_vars" where
  "activity_forEach h v [] = Inr v"
| "activity_forEach h v (activity # rest) =
     (case activity_step h v activity of
        Inl e \<Rightarrow> Inl e
      | Inr v' \<Rightarrow> activity_forEach h v' rest)"

text \<open>
  \<open>processActivityData\<close> publishes with \<open>setActivityData\<close>, \<open>setGuardStats\<close> and
  \<open>setMetrics\<close> after the loop, so nothing is published when the loop throws.
\<close>

definition processActivityData :: "host \<Rightarrow> ActivityRecord list \<Rightarrow> SecurityDashboard \<Rightarrow> error + SecurityDashboard" where
  "processActivityData h data s =
     (case activity_forEach h initial_activity_vars data of
        Inl e \<Rightarrow> Inl e
      | Inr v \<Rightarrow>
          Inr (s\<lparr> activityData := hourlyData v,
                  guardStats :=
                    map (\<lambda>guard. guard\<lparr> status :=
                            (if 0 < GuardStats.locationIssues guard \<or> \<not> GuardStats.onTime guard
                             then warning else normal) \<rparr>)
                        (Object_values (guardMetrics v)),
                  metrics := (metrics s)
                    \<lparr> totalGuards := length (uniqueGuards v),
                      locationErrors := activity_vars.locationIssues v,
                      avgLocationAccuracy :=
                        (if locationReadings v \<noteq> 0
                         then Math_round (js_div (totalLocationAccuracy v) (Num (locationReadings v)))
                         else Fin 0) \<rparr> \<rparr>))"

section \<open>The attendance aggregator\<close>

record attendance_vars =
  locationCoverage :: "LocationStats object"
  totalShifts :: nat
  onTime :: nat
  late :: nat
  missedScans :: number

definition initial_attendance_vars :: attendance_vars where
  "initial_attendance_vars =
     \<lparr> locationCoverage = [],
       attendance_vars.totalShifts = 0,
       attendance_vars.onTime = 0,
       late = 0,
       attendance_vars.missedScans = Fin 0 \<rparr>"

definition attendance_step :: "attendance_vars \<Rightarrow> AttendanceRecord \<Rightarrow> attendance_vars" where
  "attendance_step v record =
     (if AttendanceRecord.Post_Name record = [] then v
      else
        let v1 = v\<lparr> attendance_vars.totalShifts := attendance_vars.totalShifts v + 1 \<rparr>;
            v2 = (if Late_Hours record = ''On-time''
                  then v1\<lparr> attendance_vars.onTime := attendance_vars.onTime v1 + 1 \<rparr>
                  else v1\<lparr> late := late v1 + 1 \<rparr>);
            v3 = v2\<lparr> attendance_vars.missedScans :=
                      js_add (attendance_vars.missedScans v2)
                        (parseInt (if No_of_Miss record \<noteq> [] then No_of_Miss record else ''0'')) \<rparr>;
            location = AttendanceRecord.Post_Name record;
            lc = locationCoverage v3;
            lc1 = (if \<not> truthy_at lc location
                   then define_own lc location
                          \<lparr> LocationStats.name = location,
                            totalScans = 0,
                            accuracyIssues = 0,
                            avgAccuracy = 0,
                            coverageRate = Fin 0 \<rparr>
                   else lc);
            lc2 = modify_own lc1 location (\<lambda>l. l\<lparr> totalScans := totalScans l + 1 \<rparr>);
            lc3 = (if Late_Hours record \<noteq> ''On-time''
                   then modify_own lc2 location (\<lambda>l. l\<lparr> accuracyIssues := accuracyIssues l + 1 \<rparr>)
                   else lc2)
        in v3\<lparr> locationCoverage := lc3 \<rparr>)"

definition attendance_forEach :: "attendance_vars \<Rightarrow> AttendanceRecord list \<Rightarrow> attendance_vars" where
  "attendance_forEach v data = foldl attendance_step v data"

text \<open>The pass "Calculate coverage rates" over one location.\<close>

definition calculate_coverage :: "LocationStats \<Rightarrow> LocationStats" where
  "calculate_coverage location =
     location\<lparr> coverageRate :=
       Math_round
         (js_mul
            (js_div (Fin (of_nat (totalScans location) - of_nat (accuracyIssues location)))
                    (Num (totalScans location)))
            (Fin 100)) \<rparr>"

definition processAttendanceData :: "AttendanceRecord list \<Rightarrow> SecurityDashboard \<Rightarrow> SecurityDashboard" where
  "processAttendanceData data s =
     (let v = attendance_forEach initial_attendance_vars data;
          lc = map (\<lambda>(k, location). (k, calculate_coverage location)) (locationCoverage v)
      in s\<lparr> locationStats := Object_values lc,
            metrics := (metrics s)
              \<lparr> Metrics.totalShifts := attendance_vars.totalShifts v,
                onTimeRate :=
                  Math_round
                    (js_mul (js_div (Num (attendance_vars.onTime v)) (Num (attendance_vars.totalShifts v)))
                            (Fin 100)),
                lateCheckIns := late v,
                Metrics.missedScans := attendance_vars.missedScans v,
                earlyCheckouts := late v \<rparr> \<rparr>)"

section \<open>The record filter and the effect that re-derives the views\<close>

definition filteredActivityData :: "host \<Rightarrow> SecurityDashboard \<Rightarrow> ActivityRecord list" where
  "filteredActivityData h s =
     filter (\<lambda>activity.
        if Date_Time activity = [] then False
        else let activityDate = new_Date h (Date_Time activity)
             in if startDate s \<noteq> None \<and> date_lt activityDate (the (startDate s)) then False
                else if endDate s \<noteq> None \<and> date_gt activityDate (the (endDate s)) then False
                else True)
       (activityDataRaw s)"

definition filteredAttendanceData :: "host \<Rightarrow> SecurityDashboard \<Rightarrow> AttendanceRecord list" where
  "filteredAttendanceData h s =
     filter (\<lambda>record.
        if Login_Date record = [] then False
        else let loginDate = new_Date h (Login_Date record)
             in if startDate s \<noteq> None \<and> date_lt loginDate (the (startDate s)) then False
                else if endDate s \<noteq> None \<and> date_gt loginDate (the (endDate s)) then False
                else True)
       (attendanceDataRaw s)"

text \<open>
  The effect with the dependencies \<open>[activityDataRaw, attendanceDataRaw, startDate,
  endDate]\<close>: React runs it again after every change of one of the four.
\<close>

definition process_effect :: "host \<Rightarrow> SecurityDashboard \<Rightarrow> error + SecurityDashboard" where
  "process_effect h s =
     (if activityDataRaw s = [] \<or> attendanceDataRaw s = [] then Inr s
      else case processActivityData h (filteredActivityData h s) s of
        Inl e \<Rightarrow> Inl e
      | Inr s1 \<Rightarrow> Inr (processAttendanceData (filteredAttendanceData h s) s1))"




text \<open>The initial values given to \<open>useState\<close>.\<close>

definition initial_SecurityDashboard :: SecurityDashboard where
  "initial_SecurityDashboard =
     \<lparr> metrics =
         \<lparr> totalGuards = 0, onTimeRate = Fin 0, lateCheckIns = 0, earlyCheckouts = 0,
           locationErrors = 0, avgLocationAccuracy = Fin 0, Metrics.totalShifts = 0,
           Metrics.missedScans = Fin 0 \<rparr>,
       guardStats = [],
       activityData = [],
       locationStats = [],
       startDate = None,
       endDate = None,
       activityDataRaw = [],
       attendanceDataRaw = [] \<rparr>"

section \<open>What the specification says, for comparison\<close>







section \<open>Sample inputs\<close>

text \<open>
  A machine on UTC. The three ISO timestamps parse as the standard says; every other
  string of the samples below is no date at all.
\<close>

definition utc_host :: host where
  "utc_host =
     \<lparr> Date_parse = map_of
         [(''2024-01-01T14:00:00Z'', 1704117600000),
          (''2024-01-02T09:30:00Z'', 1704187800000),
          (''2024-01-03T09:00:00Z'', 1704272400000)],
       LocalTZA = (\<lambda>t. 0) \<rparr>"

definition sample_activity :: "string \<Rightarrow> string \<Rightarrow> string \<Rightarrow> string \<Rightarrow> ActivityRecord" where
  "sample_activity serviceNumber dateTime accuracy timeAccuracy =
     \<lparr> ActivityRecord.Service_Number = serviceNumber,
       User_Name = ''A. Guard'',
       Date_Time = dateTime,
       Activity = ''Scan'',
       ActivityRecord.Post_Name = ''Gate-1'',
       Location_Accuracy = accuracy,
       Time_Accuracy = timeAccuracy \<rparr>"

definition sample_attendance :: "string \<Rightarrow> string \<Rightarrow> string \<Rightarrow> string \<Rightarrow> AttendanceRecord" where
  "sample_attendance loginDate postName lateHours noOfMiss =
     \<lparr> Login_Date = loginDate,
       AttendanceRecord.Post_Name = postName,
       Shift_Time = ''Day'',
       Full_Name = ''A. Guard'',
       AttendanceRecord.Service_Number = ''1001'',
       Late_Hours = lateHours,
       Excess_Hours = [],
       No_of_Miss = noOfMiss \<rparr>"


text \<open>Four shifts at three posts.\<close>

definition three_posts :: "AttendanceRecord list" where
  "three_posts =
     [sample_attendance ''2024-01-01T14:00:00Z'' ''Gate-1'' ''On-time'' ''0'',
      sample_attendance ''2024-01-01T14:00:00Z'' ''Gate-1'' ''Late'' ''1'',
      sample_attendance ''2024-01-02T09:30:00Z'' ''Gate-2'' ''On-time'' [],
      sample_attendance ''2024-01-02T09:30:00Z'' ''Gate-3'' ''Late'' []]"

text \<open>Two activities of one guard, the second one late and 90 metres off.\<close>

definition two_readings :: "ActivityRecord list" where
  "two_readings =
     [sample_activity ''1001'' ''2024-01-01T14:00:00Z'' ''10m'' ''On Time'',
      sample_activity ''1001'' ''2024-01-02T09:30:00Z'' ''about 90 m'' ''Late'']"

text \<open>The GuardStat that the activity aggregator derives from \<open>two_readings\<close>.\<close>

definition guard_1001 :: GuardStats where
  "guard_1001 =
     \<lparr> guard_id = ''1001'', GuardStats.name = ''A. Guard'', post = ''Gate-1'', activities = 2,
       locationAccuracy = Fin 90, GuardStats.locationIssues = 1, GuardStats.onTime = True,
       GuardStats.missedScans = 0, lastActivity = ''2024-01-02T09:30:00Z'', status = warning \<rparr>"

section \<open>Invariants of the two loops\<close>

text \<open>A location that has been scanned: the state of every entry of \<open>locationCoverage\<close>.\<close>

definition scans_ok :: "LocationStats \<Rightarrow> bool" where
  "scans_ok l = (1 \<le> totalScans l \<and> accuracyIssues l \<le> totalScans l)"

text \<open>
  Every timestamp of the input that is not empty parses. The activity loop returns
  exactly on such inputs; on the others it throws.
\<close>

definition timestamps_parse :: "host \<Rightarrow> ActivityRecord list \<Rightarrow> bool" where
  "timestamps_parse h data =
     list_all (\<lambda>a. Date_Time a = [] \<or> Date_parse h (Date_Time a) \<noteq> None) data"

text \<open>
  The first activity of the input that reaches the guard block with the service number \<open>k\<close>:
  the first record with a non-empty timestamp and that service number.
\<close>

definition first_seen :: "ActivityRecord list \<Rightarrow> string \<Rightarrow> ActivityRecord option" where
  "first_seen data k =
     find (\<lambda>a. Date_Time a \<noteq> [] \<and> ActivityRecord.Service_Number a = k) data"

text \<open>
  The state of \<open>guardMetrics\<close> after the records of a prefix: every entry is stored under
  its own id and carries the on-time flag of the first activity seen for that id, and every
  guard seen so far has an entry, unless its id is a name inherited from \<open>Object.prototype\<close>.
\<close>

definition guards_ok :: "ActivityRecord list \<Rightarrow> GuardStats object \<Rightarrow> bool" where
  "guards_ok pre gm =
     ((\<forall>p \<in> set gm. guard_id (snd p) = fst p
          \<and> (\<exists>a. first_seen pre (fst p) = Some a
                 \<and> GuardStats.onTime (snd p) = (Time_Accuracy a = ''On Time'')))
      \<and> (\<forall>a \<in> set pre. Date_Time a \<noteq> [] \<and> ActivityRecord.Service_Number a \<noteq> []
             \<and> \<not> inherited (ActivityRecord.Service_Number a)
           \<longrightarrow> ActivityRecord.Service_Number a \<in> fst ` set gm))"


text \<open>The number of records that the activity loop counts in a bucket.\<close>

definition counted :: "ActivityRecord list \<Rightarrow> nat" where
  "counted data = length (filter (\<lambda>a. Date_Time a \<noteq> []) data)"

definition bucket_total :: "ActivityData list \<Rightarrow> nat" where
  "bucket_total buckets = sum_list (map count buckets)"

text \<open>
  The service numbers observed by the guard block, one for each record that reaches it,
  and the records that reach it with the service number \<open>k\<close>.
\<close>

definition observed :: "ActivityRecord list \<Rightarrow> string list" where
  "observed data =
     map ActivityRecord.Service_Number
       (filter (\<lambda>a. Date_Time a \<noteq> [] \<and> ActivityRecord.Service_Number a \<noteq> []) data)"

definition guard_rows :: "string \<Rightarrow> ActivityRecord list \<Rightarrow> ActivityRecord list" where
  "guard_rows k data =
     filter (\<lambda>a. Date_Time a \<noteq> [] \<and> ActivityRecord.Service_Number a = k) data"

text \<open>
  The set of distinct guards and the keys of \<open>guardMetrics\<close> after the records of a
  prefix: the set holds the service numbers observed, the keys are those of them that are
  not inherited names, in the same order, and every entry has counted its records.
\<close>

definition counts_ok :: "ActivityRecord list \<Rightarrow> activity_vars \<Rightarrow> bool" where
  "counts_ok pre v =
     (distinct (uniqueGuards v)
      \<and> set (uniqueGuards v) = set (observed pre)
      \<and> map fst (guardMetrics v) = filter (\<lambda>k. \<not> inherited k) (uniqueGuards v)
      \<and> (\<forall>p \<in> set (guardMetrics v).
            guard_id (snd p) = fst p \<and> activities (snd p) = length (guard_rows (fst p) pre)))"

text \<open>
  What the two filter callbacks compute on a date field: the field is not empty, and its
  time value, if it has one, is neither before a valid lower bound nor after a valid upper
  bound. A field that does not parse passes.
\<close>

definition within_bounds :: "Date option \<Rightarrow> Date option \<Rightarrow> int \<Rightarrow> bool" where
  "within_bounds lower upper t =
     ((case lower of Some (Some l) \<Rightarrow> l \<le> t | _ \<Rightarrow> True)
      \<and> (case upper of Some (Some u) \<Rightarrow> t \<le> u | _ \<Rightarrow> True))"

definition passes_filter :: "host \<Rightarrow> Date option \<Rightarrow> Date option \<Rightarrow> string \<Rightarrow> bool" where
  "passes_filter h lower upper field =
     (field \<noteq> []
      \<and> (case Date_parse h field of None \<Rightarrow> True | Some t \<Rightarrow> within_bounds lower upper t))"

section \<open>Rounding to binary64\<close>

lemma pow2_pos [simp]: "0 < pow2 q"
  by (simp add: pow2_def)

lemma pow2_ne0 [simp]: "pow2 q \<noteq> 0"
  by (simp add: pow2_def)

lemma pow2_ge0 [simp]: "0 \<le> pow2 q"
  by (rule less_imp_le [OF pow2_pos])

lemma pow2_abs [simp]: "\<bar>pow2 q\<bar> = pow2 q"
  by simp

lemma pow2_add: "pow2 (a + b) = pow2 a * pow2 b"
  by (simp add: pow2_def power_int_add)

lemma pow2_nat: "pow2 (int n) = 2 ^ n"
  by (simp add: pow2_def)

lemma pow2_neg: "0 \<le> j \<Longrightarrow> pow2 (- j) = 1 / 2 ^ nat j"
  by (cases "j = 0") (simp_all add: pow2_def power_int_def field_simps)

lemma pow2_nonneg: "0 \<le> j \<Longrightarrow> pow2 j = 2 ^ nat j"
  by (simp add: pow2_def power_int_def)

lemma pow2_mono: "a \<le> b \<Longrightarrow> pow2 a \<le> pow2 b"
  by (simp add: pow2_def power_int_increasing)

lemma pow2_strict_mono: "a < b \<Longrightarrow> pow2 a < pow2 b"
  by (simp add: pow2_def power_int_strict_increasing)

lemma pow2_less_cancel: "pow2 a < pow2 b \<Longrightarrow> a < b"
  using pow2_mono [of b a] by (cases "a < b") auto

lemma ilog2_bounds_ge1:
  assumes "1 \<le> x"
  shows "pow2 (ilog2 x) \<le> x \<and> x < pow2 (ilog2 x + 1)"
proof -
  define n where "n = \<lfloor>x\<rfloor>"
  have n: "0 < n" using assms by (simp add: n_def)
  from bitlen_bounds [OF n] have lo: "2 ^ nat (bitlen n - 1) \<le> n" and hi: "n < 2 ^ nat (bitlen n)"
    by auto
  have b1: "1 \<le> bitlen n" using n by (simp add: bitlen_alt_def)
  have e: "ilog2 x = bitlen n - 1" using assms by (simp add: ilog2_def n_def)
  have "pow2 (bitlen n - 1) = 2 ^ nat (bitlen n - 1)"
    using b1 pow2_nonneg [of "bitlen n - 1"] by simp
  also have "\<dots> = of_int (2 ^ nat (bitlen n - 1))" by simp
  also have "\<dots> \<le> of_int n" using lo by (simp only: of_int_le_iff)
  also have "\<dots> \<le> x" by (simp add: n_def)
  finally have A: "pow2 (ilog2 x) \<le> x" by (simp add: e)
  have "n + 1 \<le> 2 ^ nat (bitlen n)" using hi by simp
  then have "(of_int (n + 1) :: rat) \<le> of_int (2 ^ nat (bitlen n))" by (simp only: of_int_le_iff)
  moreover have "x < of_int (n + 1)" using floor_correct [of x] by (simp add: n_def)
  ultimately have "x < 2 ^ nat (bitlen n)" by simp
  moreover have "pow2 (bitlen n) = 2 ^ nat (bitlen n)"
    using b1 pow2_nonneg [of "bitlen n"] by simp
  ultimately have B: "x < pow2 (ilog2 x + 1)" by (simp add: e)
  from A B show ?thesis ..
qed

lemma ilog2_bounds_lt1:
  assumes "0 < x" "x < 1"
  shows "pow2 (ilog2 x) \<le> x \<and> x < pow2 (ilog2 x + 1)"
proof -
  define c where "c = \<lceil>1 / x\<rceil>"
  define k where "k = bitlen (c - 1)"
  have y: "1 < 1 / x" using assms by simp
  then have c2: "2 \<le> c" unfolding c_def by linarith
  then have m: "0 < c - 1" by simp
  from bitlen_bounds [OF m] have lo: "2 ^ nat (k - 1) \<le> c - 1" and hi: "c - 1 < 2 ^ nat k"
    by (auto simp: k_def)
  have k1: "1 \<le> k" using m by (simp add: k_def bitlen_alt_def)
  have e: "ilog2 x = - k" using assms by (simp add: ilog2_def k_def c_def)
  have "1 / x \<le> of_int c" by (simp add: c_def)
  also have "c \<le> 2 ^ nat k" using hi by simp
  then have "(of_int c :: rat) \<le> of_int (2 ^ nat k)" by (simp only: of_int_le_iff)
  finally have "1 / x \<le> 2 ^ nat k" by simp
  then have "1 / 2 ^ nat k \<le> x" using assms by (simp add: field_simps)
  moreover have "pow2 (- k) = 1 / 2 ^ nat k"
    using k1 pow2_neg [of k] by simp
  ultimately have A: "pow2 (ilog2 x) \<le> x" by (simp add: e)
  have "of_int (c - 1) < 1 / x" unfolding c_def using ceiling_correct [of "1 / x"] by simp
  moreover have "(of_int (2 ^ nat (k - 1)) :: rat) \<le> of_int (c - 1)" using lo by (simp only: of_int_le_iff)
  ultimately have "2 ^ nat (k - 1) < 1 / x" by simp
  then have "x < 1 / 2 ^ nat (k - 1)" using assms by (simp add: field_simps)
  moreover have "pow2 (- k + 1) = 1 / 2 ^ nat (k - 1)"
    using k1 pow2_neg [of "k - 1"] by simp
  ultimately have B: "x < pow2 (ilog2 x + 1)" by (simp add: e)
  from A B show ?thesis ..
qed


lemma ilog2_bounds:
  assumes "0 < x"
  shows "pow2 (ilog2 x) \<le> x" and "x < pow2 (ilog2 x + 1)"
  using assms ilog2_bounds_ge1 [of x] ilog2_bounds_lt1 [of x] by (cases "1 \<le> x"; simp)+


lemma round_half_even_of_int [simp]: "round_half_even (of_int n) = n"
  by (simp add: round_half_even_def)




lemma pow2_diff: "pow2 (a - b) = pow2 a / pow2 b"
  using pow2_add [of "a - b" b] by (simp add: field_simps)

lemma pow2_int_valued: "0 \<le> j \<Longrightarrow> pow2 j = of_int (2 ^ nat j)"
  by (simp add: pow2_nonneg)

text \<open>A dyadic rational with a significand below \<open>2^53\<close> is a binary64 value.\<close>

lemma fl_rat_exact:
  assumes m: "\<bar>m\<bar> < 2 ^ 53" and j: "- 1074 \<le> j"
  shows "fl_rat (of_int m * pow2 j) = of_int m * pow2 j"
proof (cases "m = 0")
  case True
  then show ?thesis by (simp add: fl_rat_def)
next
  case False
  define x where "x = (of_int m :: rat) * pow2 j"
  have ax: "\<bar>x\<bar> = of_int \<bar>m\<bar> * pow2 j"
    by (simp add: x_def abs_mult)
  have xpos: "0 < \<bar>x\<bar>" using False by (simp add: x_def)
  define e where "e = ilog2 \<bar>x\<bar>"
  have "pow2 e \<le> \<bar>x\<bar>" unfolding e_def by (rule ilog2_bounds [OF xpos])
  also have "\<bar>x\<bar> < 2 ^ 53 * pow2 j"
  proof -
    have "(of_int \<bar>m\<bar> :: rat) < of_int (2 ^ 53)" using m by (simp only: of_int_less_iff)
    then show ?thesis unfolding ax by (simp add: mult_strict_right_mono)
  qed
  also have "\<dots> = pow2 (53 + j)" using pow2_add [of 53 j] pow2_nonneg [of 53] by simp
  finally have "e < 53 + j" by (rule pow2_less_cancel)
  define q where "q = max (e - 52) (- 1074)"
  have qj: "q \<le> j" using \<open>e < 53 + j\<close> j by (simp add: q_def)
  have "x / pow2 q = of_int m * pow2 (j - q)" by (simp add: x_def pow2_diff)
  also have "\<dots> = of_int (m * 2 ^ nat (j - q))" using qj by (simp add: pow2_nonneg)
  finally have "round_half_even (x / pow2 q) = m * 2 ^ nat (j - q)"
    by (simp only: round_half_even_of_int)
  then have "of_int (round_half_even (x / pow2 q)) * pow2 q = of_int m * pow2 (j - q) * pow2 q"
    using qj by (simp add: pow2_nonneg)
  also have "\<dots> = x" by (simp add: x_def pow2_diff)
  finally show ?thesis
    using False unfolding x_def [symmetric] fl_rat_def e_def q_def Let_def by (simp add: x_def)
qed

lemma fl_rat_of_int: "\<bar>n\<bar> < 2 ^ 53 \<Longrightarrow> fl_rat (of_int n) = of_int n"
  using fl_rat_exact [of n 0] by (simp add: pow2_def)



lemma to_number_Fin: "\<bar>fl_rat x\<bar> < 2 ^ 1024 \<Longrightarrow> to_number x = Fin (fl_rat x)"
  by (simp add: to_number_def Let_def abs_if split: if_splits)

lemma to_number_of_int: "\<bar>n\<bar> < 2 ^ 53 \<Longrightarrow> to_number (of_int n) = Fin (of_int n)"
proof -
  assume n: "\<bar>n\<bar> < 2 ^ 53"
  then have "\<bar>n\<bar> < 2 ^ 1024" by (rule less_trans) simp
  then have "(of_int \<bar>n\<bar> :: rat) < of_int (2 ^ 1024)" by (simp only: of_int_less_iff)
  then have "\<bar>of_int n :: rat\<bar> < 2 ^ 1024" by simp
  then show ?thesis using fl_rat_of_int [OF n] by (simp add: to_number_Fin)
qed

lemma to_number_numeral [simp]:
  "numeral k < (2 ^ 53 :: int) \<Longrightarrow> to_number (numeral k) = Fin (numeral k)"
  using to_number_of_int [of "numeral k"] by simp

lemma to_number_0 [simp]: "to_number 0 = Fin 0"
  using to_number_of_int [of 0] by simp

lemma to_number_1 [simp]: "to_number 1 = Fin 1"
  using to_number_of_int [of 1] by simp

section \<open>Rounded quotients and percentages\<close>

lemma floor_numeral_div: "\<lfloor>numeral a / numeral b :: rat\<rfloor> = numeral a div numeral b"
  using floor_divide_of_int_eq [of "numeral a" "numeral b", where ?'a = rat] by simp






lemma floor_half [simp]: "\<lfloor>1 / 2 :: rat\<rfloor> = 0"
  by (rule floor_unique) simp_all

lemma pow2_minus_one: "pow2 (- 1) = 1 / 2"
  using pow2_neg [of 1] by simp




section \<open>The attendance loop\<close>

lemma set_Object_values: "set (Object_values obj) = snd ` set obj"
  by (auto simp: Object_values_def)

lemma attendance_step_scans_ok:
  assumes "\<forall>p \<in> set (locationCoverage v). scans_ok (snd p)"
  shows "\<forall>p \<in> set (locationCoverage (attendance_step v r)). scans_ok (snd p)"
  using assms
  by (auto simp: attendance_step_def Let_def modify_own_def define_own_def scans_ok_def
      split: if_splits)

lemma attendance_forEach_scans_ok:
  assumes "\<forall>p \<in> set (locationCoverage v). scans_ok (snd p)"
  shows "\<forall>p \<in> set (locationCoverage (attendance_forEach v data)). scans_ok (snd p)"
  using assms unfolding attendance_forEach_def
proof (induction data arbitrary: v)
  case Nil
  then show ?case by simp
next
  case (Cons r data)
  have "\<forall>p \<in> set (locationCoverage (attendance_step v r)). scans_ok (snd p)"
    by (rule attendance_step_scans_ok [OF Cons.prems])
  from Cons.IH [OF this] show ?case by simp
qed

lemma locationStats_processAttendanceData:
  assumes "l \<in> set (locationStats (processAttendanceData data s))"
  shows "\<exists>l0. scans_ok l0 \<and> l = calculate_coverage l0"
proof -
  let ?v = "attendance_forEach initial_attendance_vars data"
  from assms obtain k l0 where m: "(k, l0) \<in> set (locationCoverage ?v)" and l: "l = calculate_coverage l0"
    by (auto simp: processAttendanceData_def Let_def set_Object_values)
  have "\<forall>p \<in> set (locationCoverage ?v). scans_ok (snd p)"
    by (rule attendance_forEach_scans_ok) (simp add: initial_attendance_vars_def)
  with m have "scans_ok l0" by auto
  with l show ?thesis by blast
qed

lemma calculate_coverage_fields [simp]:
  "totalScans (calculate_coverage l) = totalScans l"
  "accuracyIssues (calculate_coverage l) = accuracyIssues l"
  by (simp_all add: calculate_coverage_def)

lemma to_number_not_NaN [simp]: "to_number x \<noteq> NaN"
  by (simp add: to_number_def Let_def)

lemma js_mul_100_not_NaN: "x \<noteq> NaN \<Longrightarrow> js_mul x (Fin 100) \<noteq> NaN"
  by (cases x) simp_all

lemma Math_round_not_NaN: "x \<noteq> NaN \<Longrightarrow> Math_round x \<noteq> NaN"
  by (cases x) simp_all

section \<open>The activity loop\<close>

lemma activity_forEach_invariant_gen:
  assumes "activity_forEach h v rest = Inr v'" and "I pre v" and "data = pre @ rest"
    and step: "\<And>pre a rest u u'. data = pre @ a # rest \<Longrightarrow> I pre u \<Longrightarrow> activity_step h u a = Inr u'
                 \<Longrightarrow> I (pre @ [a]) u'"
  shows "I data v'"
  using assms(1-3)
proof (induction rest arbitrary: pre v)
  case Nil
  then show ?case by simp
next
  case (Cons a rest)
  from Cons.prems(1) obtain u where u: "activity_step h v a = Inr u" "activity_forEach h u rest = Inr v'"
    by (auto split: sum.splits)
  have "I (pre @ [a]) u" by (rule step [OF Cons.prems(3) Cons.prems(2) u(1)])
  from Cons.IH [OF u(2) this] Cons.prems(3) show ?case by simp
qed

lemma activity_forEach_invariant:
  assumes "activity_forEach h v data = Inr v'" and "I [] v"
    and "\<And>pre a rest u u'. data = pre @ a # rest \<Longrightarrow> I pre u \<Longrightarrow> activity_step h u a = Inr u'
                 \<Longrightarrow> I (pre @ [a]) u'"
  shows "I data v'"
  using activity_forEach_invariant_gen [of h v data v' I "[]" data] assms by simp

text \<open>The parts of one step.\<close>

lemma activity_step_skip: "Date_Time a = [] \<Longrightarrow> activity_step h v a = Inr v"
  by (simp add: activity_step_def)

lemma activity_step_Inr:
  assumes "activity_step h v a = Inr v'" and "Date_Time a \<noteq> []"
  obtains hr where "getHours h (new_Date h (Date_Time a)) = Some hr" "hr < length (hourlyData v)"
    and "v' = process_location_accuracy hr a
                (if ActivityRecord.Service_Number a \<noteq> []
                 then track_guard h a (v\<lparr> hourlyData := (hourlyData v)
                         [hr := (hourlyData v ! hr)\<lparr> count := count (hourlyData v ! hr) + 1 \<rparr>] \<rparr>)
                 else v\<lparr> hourlyData := (hourlyData v)
                         [hr := (hourlyData v ! hr)\<lparr> count := count (hourlyData v ! hr) + 1 \<rparr>] \<rparr>)"
  using assms by (auto simp: activity_step_def Let_def split: option.splits if_splits)

lemma first_seen_snoc:
  "first_seen (pre @ [a]) k =
     (case first_seen pre k of
        Some b \<Rightarrow> Some b
      | None \<Rightarrow> if Date_Time a \<noteq> [] \<and> ActivityRecord.Service_Number a = k then Some a else None)"
  unfolding first_seen_def by (induction pre) auto

lemma first_seen_None:
  "first_seen pre k = None \<longleftrightarrow>
     (\<forall>a \<in> set pre. \<not> (Date_Time a \<noteq> [] \<and> ActivityRecord.Service_Number a = k))"
  unfolding first_seen_def by (induction pre) auto

lemma keys_modify_own [simp]: "fst ` set (modify_own gm k f) = fst ` set gm"
  by (induction gm) (auto simp: modify_own_def)

lemma in_modify_own:
  "p \<in> set (modify_own gm k f) \<Longrightarrow>
     \<exists>q \<in> set gm. fst p = fst q \<and> (snd p = snd q \<or> (fst q = k \<and> snd p = f (snd q)))"
proof -
  assume "p \<in> set (modify_own gm k f)"
  then obtain q where q: "q \<in> set gm"
    and p: "p = (if fst q = k then (fst q, f (snd q)) else (fst q, snd q))"
    by (auto simp: modify_own_def split: if_splits)
  show ?thesis
    by (rule bexI [OF _ q]) (simp add: p)
qed

text \<open>A map over the guards that leaves their identity and on-time flag alone.\<close>

lemma guards_ok_modify_own:
  assumes "guards_ok pre gm"
    and "\<And>g. guard_id (f g) = guard_id g \<and> GuardStats.onTime (f g) = GuardStats.onTime g"
  shows "guards_ok pre (modify_own gm k f)"
  unfolding guards_ok_def
proof (rule conjI; rule ballI)
  fix p assume "p \<in> set (modify_own gm k f)"
  from in_modify_own [OF this] obtain q where q: "q \<in> set gm" "fst p = fst q"
    "snd p = snd q \<or> snd p = f (snd q)" by blast
  from assms(1) q(1) obtain b where b: "guard_id (snd q) = fst q" "first_seen pre (fst q) = Some b"
    "GuardStats.onTime (snd q) = (Time_Accuracy b = ''On Time'')"
    unfolding guards_ok_def by blast
  from q(3) assms(2) [of "snd q"]
  have same: "guard_id (snd p) = guard_id (snd q)" "GuardStats.onTime (snd p) = GuardStats.onTime (snd q)"
    by auto
  have "guard_id (snd p) = fst p" by (simp add: same b(1) q(2))
  moreover have "first_seen pre (fst p) = Some b" by (simp add: q(2) b(2))
  moreover have "GuardStats.onTime (snd p) = (Time_Accuracy b = ''On Time'')" by (simp add: same b(3))
  ultimately show "guard_id (snd p) = fst p \<and> (\<exists>a. first_seen pre (fst p) = Some a
                 \<and> GuardStats.onTime (snd p) = (Time_Accuracy a = ''On Time''))"
    by blast
next
  fix a assume "a \<in> set pre"
  with assms(1) show "Date_Time a \<noteq> [] \<and> ActivityRecord.Service_Number a \<noteq> []
             \<and> \<not> inherited (ActivityRecord.Service_Number a)
           \<longrightarrow> ActivityRecord.Service_Number a \<in> fst ` set (modify_own gm k f)"
    by (simp add: guards_ok_def)
qed

lemma guards_ok_snoc:
  assumes ok: "guards_ok pre gm"
    and new: "Date_Time a \<noteq> [] \<and> ActivityRecord.Service_Number a \<noteq> []
         \<and> \<not> inherited (ActivityRecord.Service_Number a)
         \<longrightarrow> ActivityRecord.Service_Number a \<in> fst ` set gm"
  shows "guards_ok (pre @ [a]) gm"
  unfolding guards_ok_def
proof (rule conjI; rule ballI)
  fix p assume "p \<in> set gm"
  with ok obtain b where b: "guard_id (snd p) = fst p" "first_seen pre (fst p) = Some b"
    "GuardStats.onTime (snd p) = (Time_Accuracy b = ''On Time'')"
    unfolding guards_ok_def by blast
  from b(2) have "first_seen (pre @ [a]) (fst p) = Some b" by (simp add: first_seen_snoc)
  with b(1,3) show "guard_id (snd p) = fst p \<and> (\<exists>a'. first_seen (pre @ [a]) (fst p) = Some a'
                 \<and> GuardStats.onTime (snd p) = (Time_Accuracy a' = ''On Time''))"
    by blast
next
  fix b assume "b \<in> set (pre @ [a])"
  then have "b \<in> set pre \<or> b = a" by auto
  with ok new show "Date_Time b \<noteq> [] \<and> ActivityRecord.Service_Number b \<noteq> []
             \<and> \<not> inherited (ActivityRecord.Service_Number b)
           \<longrightarrow> ActivityRecord.Service_Number b \<in> fst ` set gm"
    unfolding guards_ok_def by blast
qed

lemma guards_ok_define_own:
  assumes ok: "guards_ok pre gm" and nt: "\<not> truthy_at gm k" and k: "k \<noteq> []"
    and a: "Date_Time a \<noteq> []" "ActivityRecord.Service_Number a = k"
    and g: "guard_id g = k" "GuardStats.onTime g = (Time_Accuracy a = ''On Time'')"
  shows "guards_ok (pre @ [a]) (define_own gm k g)"
proof -
  from nt have nk: "k \<notin> fst ` set gm" and ni: "\<not> inherited k"
    by (simp_all add: truthy_at_def own_def map_of_eq_None_iff)
  have none: "first_seen pre k = None"
  proof (rule ccontr)
    assume "first_seen pre k \<noteq> None"
    then obtain b where b: "b \<in> set pre" "Date_Time b \<noteq> []" "ActivityRecord.Service_Number b = k"
      by (auto simp: first_seen_None)
    with ok k ni have "k \<in> fst ` set gm" unfolding guards_ok_def by blast
    with nk show False ..
  qed
  show ?thesis
    unfolding guards_ok_def
  proof (rule conjI; rule ballI)
    fix p assume "p \<in> set (define_own gm k g)"
    then consider "p \<in> set gm" | "p = (k, g)" by (auto simp: define_own_def)
    then show "guard_id (snd p) = fst p \<and> (\<exists>a'. first_seen (pre @ [a]) (fst p) = Some a'
                 \<and> GuardStats.onTime (snd p) = (Time_Accuracy a' = ''On Time''))"
    proof cases
      case 1
      with ok obtain b where b: "guard_id (snd p) = fst p" "first_seen pre (fst p) = Some b"
        "GuardStats.onTime (snd p) = (Time_Accuracy b = ''On Time'')"
        unfolding guards_ok_def by blast
      from b(2) have "first_seen (pre @ [a]) (fst p) = Some b" by (simp add: first_seen_snoc)
      with b(1,3) show ?thesis by blast
    next
      case 2
      have "first_seen (pre @ [a]) k = Some a" using none a by (simp add: first_seen_snoc)
      with 2 g show ?thesis by simp
    qed
  next
    fix b assume "b \<in> set (pre @ [a])"
    then have "b \<in> set pre \<or> b = a" by auto
    then show "Date_Time b \<noteq> [] \<and> ActivityRecord.Service_Number b \<noteq> []
             \<and> \<not> inherited (ActivityRecord.Service_Number b)
           \<longrightarrow> ActivityRecord.Service_Number b \<in> fst ` set (define_own gm k g)"
    proof
      assume "b \<in> set pre"
      with ok show ?thesis unfolding guards_ok_def define_own_def by auto
    next
      assume "b = a"
      with a show ?thesis by (simp add: define_own_def)
    qed
  qed
qed

lemma guards_ok_track_guard:
  assumes ok: "guards_ok pre (guardMetrics v)"
    and a: "Date_Time a \<noteq> []" "ActivityRecord.Service_Number a \<noteq> []"
  shows "guards_ok (pre @ [a]) (guardMetrics (track_guard h a v))"
proof -
  define sn where "sn = ActivityRecord.Service_Number a"
  define g0 where "g0 =
     \<lparr> guard_id = sn, GuardStats.name = User_Name a, post = ActivityRecord.Post_Name a,
       activities = 0, locationAccuracy = Fin 0, GuardStats.locationIssues = 0,
       GuardStats.onTime = (Time_Accuracy a = ''On Time''), GuardStats.missedScans = 0,
       lastActivity = Date_Time a, status = normal \<rparr>"
  define gm1 where "gm1 = (if \<not> truthy_at (guardMetrics v) sn then define_own (guardMetrics v) sn g0
                           else guardMetrics v)"
  have 1: "guards_ok (pre @ [a]) gm1"
  proof (cases "truthy_at (guardMetrics v) sn")
    case False
    then have "guards_ok (pre @ [a]) (define_own (guardMetrics v) sn g0)"
      using ok a by (intro guards_ok_define_own) (simp_all add: sn_def g0_def)
    with False show ?thesis by (simp add: gm1_def)
  next
    case True
    then have "\<not> inherited sn \<longrightarrow> sn \<in> fst ` set (guardMetrics v)"
      by (auto simp: truthy_at_def own_def map_of_eq_None_iff)
    then have "guards_ok (pre @ [a]) (guardMetrics v)"
      using ok by (intro guards_ok_snoc) (simp_all add: sn_def)
    with True show ?thesis by (simp add: gm1_def)
  qed
  define f :: "GuardStats \<Rightarrow> GuardStats" where "f = (\<lambda>guard.
     let g1 = guard\<lparr> activities := activities guard + 1 \<rparr>
     in if date_gt (new_Date h (Date_Time a)) (new_Date h (lastActivity g1))
        then g1\<lparr> lastActivity := Date_Time a \<rparr> else g1)"
  have f: "guardMetrics (track_guard h a v) = modify_own gm1 sn f"
    "\<And>g. guard_id (f g) = guard_id g \<and> GuardStats.onTime (f g) = GuardStats.onTime g"
    by (simp_all add: track_guard_def Let_def gm1_def sn_def g0_def f_def)
  show ?thesis unfolding f(1) by (rule guards_ok_modify_own [OF 1 f(2)])
qed

lemma guards_ok_process_location_accuracy:
  assumes "guards_ok pre (guardMetrics v)"
  shows "guards_ok pre (guardMetrics (process_location_accuracy hr a v))"
proof -
  define f :: "GuardStats \<Rightarrow> GuardStats" where "f = (\<lambda>g. g\<lparr> GuardStats.locationIssues := GuardStats.locationIssues g + 1,
                                  locationAccuracy := parseInt (the (match_digits (Location_Accuracy a))) \<rparr>)"
  have f: "\<And>g. guard_id (f g) = guard_id g \<and> GuardStats.onTime (f g) = GuardStats.onTime g"
    by (simp add: f_def)
  have "guardMetrics (process_location_accuracy hr a v) = guardMetrics v
        \<or> guardMetrics (process_location_accuracy hr a v)
            = modify_own (guardMetrics v) (ActivityRecord.Service_Number a) f"
    by (auto simp: process_location_accuracy_def Let_def f_def split: option.splits)
  then show ?thesis using assms guards_ok_modify_own [OF assms f] by auto
qed

lemma guards_ok_step:
  assumes ok: "guards_ok pre (guardMetrics u)" and step: "activity_step h u a = Inr u'"
  shows "guards_ok (pre @ [a]) (guardMetrics u')"
proof (cases "Date_Time a = []")
  case True
  with step have "u' = u" by (simp add: activity_step_def)
  moreover have "guards_ok (pre @ [a]) (guardMetrics u)"
    using ok True by (intro guards_ok_snoc) simp_all
  ultimately show ?thesis by simp
next
  case False
  from activity_step_Inr [OF step False] obtain hr where
    u': "u' = process_location_accuracy hr a
                (if ActivityRecord.Service_Number a \<noteq> []
                 then track_guard h a (u\<lparr> hourlyData := (hourlyData u)
                         [hr := (hourlyData u ! hr)\<lparr> count := count (hourlyData u ! hr) + 1 \<rparr>] \<rparr>)
                 else u\<lparr> hourlyData := (hourlyData u)
                         [hr := (hourlyData u ! hr)\<lparr> count := count (hourlyData u ! hr) + 1 \<rparr>] \<rparr>)"
    by blast
  define u1 where "u1 = u\<lparr> hourlyData := (hourlyData u)
                         [hr := (hourlyData u ! hr)\<lparr> count := count (hourlyData u ! hr) + 1 \<rparr>] \<rparr>"
  have ok1: "guards_ok pre (guardMetrics u1)" using ok by (simp add: u1_def)
  have "guards_ok (pre @ [a])
          (guardMetrics (if ActivityRecord.Service_Number a \<noteq> [] then track_guard h a u1 else u1))"
  proof (cases "ActivityRecord.Service_Number a = []")
    case True
    then show ?thesis using ok1 by (simp add: guards_ok_snoc)
  next
    case sn: False
    then show ?thesis using guards_ok_track_guard [OF ok1 False sn] by simp
  qed
  then show ?thesis unfolding u' u1_def [symmetric] by (rule guards_ok_process_location_accuracy)
qed

lemma guards_ok_forEach:
  assumes "activity_forEach h initial_activity_vars data = Inr v"
  shows "guards_ok data (guardMetrics v)"
proof (rule activity_forEach_invariant [OF assms, where I = "\<lambda>pre u. guards_ok pre (guardMetrics u)"])
  show "guards_ok [] (guardMetrics initial_activity_vars)"
    by (simp add: guards_ok_def initial_activity_vars_def)
qed (rule guards_ok_step)

lemma hourlyData_track_guard [simp]: "hourlyData (track_guard h a v) = hourlyData v"
  by (simp add: track_guard_def Let_def)

lemma length_hourlyData_process_location_accuracy [simp]:
  "length (hourlyData (process_location_accuracy hr a v)) = length (hourlyData v)"
  by (simp add: process_location_accuracy_def Let_def split: option.splits)

lemma getHours_parsed:
  assumes "Date_parse h str = Some t"
  shows "\<exists>hr. getHours h (new_Date h str) = Some hr \<and> hr < 24"
proof -
  have "nat (((t + LocalTZA h t) div 3600000) mod 24) < 24"
    using pos_mod_bound [of 24 "(t + LocalTZA h t) div 3600000"] by simp
  then show ?thesis using assms by (simp add: getHours_def new_Date_def)
qed

lemma getHours_unparsed: "Date_parse h str = None \<Longrightarrow> getHours h (new_Date h str) = None"
  by (simp add: getHours_def new_Date_def)

lemma activity_step_total:
  assumes "Date_Time a = [] \<or> Date_parse h (Date_Time a) \<noteq> None" and "length (hourlyData v) = 24"
  shows "\<exists>v'. activity_step h v a = Inr v' \<and> length (hourlyData v') = 24"
proof (cases "Date_Time a = []")
  case True
  then show ?thesis using assms(2) by (simp add: activity_step_def)
next
  case False
  with assms(1) obtain t where "Date_parse h (Date_Time a) = Some t" by auto
  from getHours_parsed [OF this] obtain hr where
    hr: "getHours h (new_Date h (Date_Time a)) = Some hr" "hr < 24" by blast
  show ?thesis using False hr assms(2) by (simp add: activity_step_def Let_def)
qed

lemma activity_forEach_total:
  assumes "timestamps_parse h data" and "length (hourlyData v) = 24"
  shows "\<exists>v'. activity_forEach h v data = Inr v'"
  using assms
proof (induction data arbitrary: v)
  case Nil
  then show ?case by simp
next
  case (Cons a data)
  from Cons.prems have a: "Date_Time a = [] \<or> Date_parse h (Date_Time a) \<noteq> None"
    and rest: "timestamps_parse h data" by (simp_all add: timestamps_parse_def)
  from activity_step_total [OF a Cons.prems(2)] obtain u where
    u: "activity_step h v a = Inr u" "length (hourlyData u) = 24" by blast
  from Cons.IH [OF rest u(2)] u(1) show ?case by simp
qed

lemma activity_forEach_throws:
  assumes "\<not> timestamps_parse h data"
  shows "activity_forEach h v data = Inl TypeError"
  using assms
proof (induction data arbitrary: v)
  case Nil
  then show ?case by (simp add: timestamps_parse_def)
next
  case (Cons a data)
  show ?case
  proof (cases "activity_step h v a")
    case (Inl e)
    then show ?thesis by (cases e) simp
  next
    case (Inr u)
    have "Date_Time a = [] \<or> Date_parse h (Date_Time a) \<noteq> None"
    proof (rule ccontr)
      assume "\<not> ?thesis"
      then have "activity_step h v a = Inl TypeError"
        by (simp add: activity_step_def getHours_unparsed)
      with Inr show False by simp
    qed
    with Cons.prems have "\<not> timestamps_parse h data" by (auto simp: timestamps_parse_def)
    from Cons.IH [OF this] Inr show ?thesis by simp
  qed
qed

lemma processActivityData_total:
  "timestamps_parse h data \<Longrightarrow> \<exists>s'. processActivityData h data s = Inr s'"
  using activity_forEach_total [of h data initial_activity_vars]
  by (auto simp: processActivityData_def initial_activity_vars_def)

lemma processActivityData_throws:
  "\<not> timestamps_parse h data \<Longrightarrow> processActivityData h data s = Inl TypeError"
  by (simp add: processActivityData_def activity_forEach_throws)





lemma match_digits_Nil [simp]: "match_digits [] = None"
  by (simp add: match_digits_def)








lemma readings_track_guard [simp]:
  "totalLocationAccuracy (track_guard h a v) = totalLocationAccuracy v"
  "locationReadings (track_guard h a v) = locationReadings v"
  by (simp_all add: track_guard_def Let_def)





lemma processActivityData_Inr:
  assumes "processActivityData h data s = Inr s'"
  obtains v where "activity_forEach h initial_activity_vars data = Inr v"
    and "guardStats s' =
           map (\<lambda>guard. guard\<lparr> status :=
                   (if 0 < GuardStats.locationIssues guard \<or> \<not> GuardStats.onTime guard
                    then warning else normal) \<rparr>)
               (Object_values (guardMetrics v))"
    and "avgLocationAccuracy (metrics s') =
           (if locationReadings v \<noteq> 0
            then Math_round (js_div (totalLocationAccuracy v) (Num (locationReadings v)))
            else Fin 0)"
  using assms by (auto simp: processActivityData_def split: sum.splits)

subsection \<open>Bucket counts\<close>

lemma bucket_total_count_update:
  assumes "hr < length xs"
  shows "bucket_total (xs[hr := (xs ! hr)\<lparr> count := Suc (count (xs ! hr)) \<rparr>])
         = Suc (bucket_total xs)"
  using assms unfolding bucket_total_def
proof (induction xs arbitrary: hr)
  case Nil
  then show ?case by simp
next
  case (Cons x xs)
  then show ?case by (cases hr) simp_all
qed

lemma bucket_total_issue_update:
  "bucket_total (xs[hr := (xs ! hr)\<lparr> ActivityData.locationIssues := n \<rparr>]) = bucket_total xs"
proof -
  have "map count (xs[hr := (xs ! hr)\<lparr> ActivityData.locationIssues := n \<rparr>]) = map count xs"
    by (cases "hr < length xs") (simp_all add: map_update list_update_same_conv list_update_beyond)
  then show ?thesis by (simp add: bucket_total_def)
qed

lemma bucket_total_process_location_accuracy [simp]:
  "bucket_total (hourlyData (process_location_accuracy hr a v)) = bucket_total (hourlyData v)"
  by (simp add: process_location_accuracy_def Let_def bucket_total_issue_update split: option.splits)

lemma bucket_total_step:
  assumes "bucket_total (hourlyData u) = counted pre" and "activity_step h u a = Inr u'"
  shows "bucket_total (hourlyData u') = counted (pre @ [a])"
proof (cases "Date_Time a = []")
  case True
  with assms show ?thesis by (simp add: activity_step_def counted_def)
next
  case False
  from activity_step_Inr [OF assms(2) False] obtain hr where
    hr: "hr < length (hourlyData u)"
    and u': "u' = process_location_accuracy hr a
                (if ActivityRecord.Service_Number a \<noteq> []
                 then track_guard h a (u\<lparr> hourlyData := (hourlyData u)
                         [hr := (hourlyData u ! hr)\<lparr> count := count (hourlyData u ! hr) + 1 \<rparr>] \<rparr>)
                 else u\<lparr> hourlyData := (hourlyData u)
                         [hr := (hourlyData u ! hr)\<lparr> count := count (hourlyData u ! hr) + 1 \<rparr>] \<rparr>)"
    by blast
  have "bucket_total (hourlyData u') = bucket_total (hourlyData u) + 1"
    unfolding u' by (simp add: bucket_total_count_update [OF hr])
  with assms(1) False show ?thesis by (simp add: counted_def)
qed

lemma bucket_total_forEach:
  assumes "activity_forEach h initial_activity_vars data = Inr v"
  shows "bucket_total (hourlyData v) = counted data"
proof (rule activity_forEach_invariant [OF assms, where I = "\<lambda>pre u. bucket_total (hourlyData u) = counted pre"])
  show "bucket_total (hourlyData initial_activity_vars) = counted []"
    by (simp add: bucket_total_def counted_def initial_activity_vars_def comp_def)
qed (rule bucket_total_step)

lemma timestamps_parse_iff_returns:
  "timestamps_parse h data \<longleftrightarrow> (\<exists>s'. processActivityData h data s = Inr s')"
proof
  assume "timestamps_parse h data"
  then show "\<exists>s'. processActivityData h data s = Inr s'" by (rule processActivityData_total)
next
  assume r: "\<exists>s'. processActivityData h data s = Inr s'"
  show "timestamps_parse h data"
  proof (rule ccontr)
    assume "\<not> timestamps_parse h data"
    then have "processActivityData h data s = Inl TypeError" by (rule processActivityData_throws)
    with r show False by simp
  qed
qed

text \<open>
  When the aggregator returns, the 24 bucket counts add up to the number of records with a
  timestamp that parses.
\<close>

lemma bucket_counts_sum:
  assumes "processActivityData h data s = Inr s'"
  shows "length (activityData s') = 24"
    and "bucket_total (activityData s')
         = length (filter (\<lambda>a. Date_Time a \<noteq> [] \<and> Date_parse h (Date_Time a) \<noteq> None) data)"
proof -
  from assms obtain v where v: "activity_forEach h initial_activity_vars data = Inr v"
    and a: "activityData s' = hourlyData v"
    by (auto simp: processActivityData_def split: sum.splits)
  have tp: "timestamps_parse h data" using assms timestamps_parse_iff_returns by blast
  have "filter (\<lambda>a. Date_Time a \<noteq> [] \<and> Date_parse h (Date_Time a) \<noteq> None) data
        = filter (\<lambda>a. Date_Time a \<noteq> []) data"
    using tp by (intro filter_cong) (auto simp: timestamps_parse_def list_all_iff)
  then show "bucket_total (activityData s')
         = length (filter (\<lambda>a. Date_Time a \<noteq> [] \<and> Date_parse h (Date_Time a) \<noteq> None) data)"
    using bucket_total_forEach [OF v] by (simp add: a counted_def)
  have "length (hourlyData v) = 24"
    by (rule activity_forEach_invariant [OF v, where I = "\<lambda>pre u. length (hourlyData u) = 24"])
       (auto simp: initial_activity_vars_def activity_step_def Let_def
          split: if_splits option.splits)
  then show "length (activityData s') = 24" by (simp add: a)
qed

subsection \<open>Guards and their activity counts\<close>

lemma map_fst_modify_own [simp]: "map fst (modify_own gm k f) = map fst gm"
  by (induction gm) (auto simp: modify_own_def)

lemma observed_snoc:
  "observed (pre @ [a]) =
     observed pre @ (if Date_Time a \<noteq> [] \<and> ActivityRecord.Service_Number a \<noteq> []
                     then [ActivityRecord.Service_Number a] else [])"
  by (simp add: observed_def)

lemma guard_rows_snoc:
  "guard_rows k (pre @ [a]) =
     guard_rows k pre @ (if Date_Time a \<noteq> [] \<and> ActivityRecord.Service_Number a = k then [a] else [])"
  by (simp add: guard_rows_def)

lemma guard_rows_unobserved:
  "k \<noteq> [] \<Longrightarrow> k \<notin> set (observed pre) \<Longrightarrow> guard_rows k pre = []"
  by (auto simp: guard_rows_def observed_def filter_empty_conv)

lemma observed_nonempty: "k \<in> set (observed pre) \<Longrightarrow> k \<noteq> []"
  by (auto simp: observed_def)

text \<open>An update of the guards that leaves ids and activity counts alone.\<close>

lemma counts_ok_modify_own:
  assumes "counts_ok pre v"
    and "guardMetrics v' = modify_own (guardMetrics v) k f"
    and "uniqueGuards v' = uniqueGuards v"
    and "\<And>g. guard_id (f g) = guard_id g \<and> activities (f g) = activities g"
  shows "counts_ok pre v'"
  unfolding counts_ok_def
proof (intro conjI)
  show "distinct (uniqueGuards v')" "set (uniqueGuards v') = set (observed pre)"
    using assms(1,3) by (simp_all add: counts_ok_def)
  show "map fst (guardMetrics v') = filter (\<lambda>k. \<not> inherited k) (uniqueGuards v')"
    using assms(1,2,3) by (simp add: counts_ok_def)
  show "\<forall>p \<in> set (guardMetrics v').
            guard_id (snd p) = fst p \<and> activities (snd p) = length (guard_rows (fst p) pre)"
  proof
    fix p assume "p \<in> set (guardMetrics v')"
    then have "p \<in> set (modify_own (guardMetrics v) k f)" by (simp add: assms(2))
    from in_modify_own [OF this] obtain q where q: "q \<in> set (guardMetrics v)" "fst p = fst q"
      "snd p = snd q \<or> snd p = f (snd q)" by blast
    from assms(1) q(1) have b: "guard_id (snd q) = fst q"
      "activities (snd q) = length (guard_rows (fst q) pre)"
      by (simp_all add: counts_ok_def)
    from q(3) assms(4) [of "snd q"]
    have same: "guard_id (snd p) = guard_id (snd q)" "activities (snd p) = activities (snd q)"
      by auto
    show "guard_id (snd p) = fst p \<and> activities (snd p) = length (guard_rows (fst p) pre)"
      by (simp add: same b q(2))
  qed
qed

lemma counts_ok_process_location_accuracy:
  assumes "counts_ok pre v"
  shows "counts_ok pre (process_location_accuracy hr a v)"
proof -
  define f :: "GuardStats \<Rightarrow> GuardStats" where
    "f = (\<lambda>g. g\<lparr> GuardStats.locationIssues := GuardStats.locationIssues g + 1,
                 locationAccuracy := parseInt (the (match_digits (Location_Accuracy a))) \<rparr>)"
  have f: "\<And>g. guard_id (f g) = guard_id g \<and> activities (f g) = activities g"
    by (simp add: f_def)
  have ug: "uniqueGuards (process_location_accuracy hr a v) = uniqueGuards v"
    by (simp add: process_location_accuracy_def Let_def split: option.splits)
  have "guardMetrics (process_location_accuracy hr a v) = guardMetrics v
        \<or> guardMetrics (process_location_accuracy hr a v)
            = modify_own (guardMetrics v) (ActivityRecord.Service_Number a) f"
    by (auto simp: process_location_accuracy_def Let_def f_def split: option.splits)
  then show ?thesis
  proof
    assume "guardMetrics (process_location_accuracy hr a v) = guardMetrics v"
    with assms ug show ?thesis by (simp add: counts_ok_def)
  next
    assume "guardMetrics (process_location_accuracy hr a v)
            = modify_own (guardMetrics v) (ActivityRecord.Service_Number a) f"
    from counts_ok_modify_own [OF assms this ug f] show ?thesis .
  qed
qed

lemma counts_ok_key_nonempty:
  assumes "counts_ok pre v" and "p \<in> set (guardMetrics v)"
  shows "fst p \<noteq> []"
proof -
  from assms(2) have "fst p \<in> set (map fst (guardMetrics v))" by simp
  also have "\<dots> \<subseteq> set (uniqueGuards v)" using assms(1) by (auto simp: counts_ok_def)
  finally show ?thesis using assms(1) observed_nonempty by (auto simp: counts_ok_def)
qed

lemma counts_ok_snoc_no_guard:
  assumes ok: "counts_ok pre v"
    and a: "Date_Time a = [] \<or> ActivityRecord.Service_Number a = []"
    and same: "uniqueGuards v' = uniqueGuards v" "guardMetrics v' = guardMetrics v"
  shows "counts_ok (pre @ [a]) v'"
  unfolding counts_ok_def
proof (intro conjI)
  have obs: "observed (pre @ [a]) = observed pre" using a by (auto simp: observed_snoc)
  show "distinct (uniqueGuards v')" "set (uniqueGuards v') = set (observed (pre @ [a]))"
    "map fst (guardMetrics v') = filter (\<lambda>k. \<not> inherited k) (uniqueGuards v')"
    using ok same obs by (simp_all add: counts_ok_def)
  show "\<forall>p \<in> set (guardMetrics v').
          guard_id (snd p) = fst p \<and> activities (snd p) = length (guard_rows (fst p) (pre @ [a]))"
  proof
    fix p assume p: "p \<in> set (guardMetrics v')"
    then have p': "p \<in> set (guardMetrics v)" by (simp add: same)
    have k: "fst p \<noteq> []" by (rule counts_ok_key_nonempty [OF ok p'])
    have "guard_rows (fst p) (pre @ [a]) = guard_rows (fst p) pre"
      using a k by (auto simp: guard_rows_snoc)
    with ok p' show "guard_id (snd p) = fst p
        \<and> activities (snd p) = length (guard_rows (fst p) (pre @ [a]))"
      by (simp add: counts_ok_def)
  qed
qed

lemma counts_ok_track_guard:
  assumes ok: "counts_ok pre v"
    and a: "Date_Time a \<noteq> []" "ActivityRecord.Service_Number a \<noteq> []"
  shows "counts_ok (pre @ [a]) (track_guard h a v)"
proof -
  define k where "k = ActivityRecord.Service_Number a"
  define g0 where "g0 =
     \<lparr> guard_id = k, GuardStats.name = User_Name a, post = ActivityRecord.Post_Name a,
       activities = 0, locationAccuracy = Fin 0, GuardStats.locationIssues = 0,
       GuardStats.onTime = (Time_Accuracy a = ''On Time''), GuardStats.missedScans = 0,
       lastActivity = Date_Time a, status = normal \<rparr>"
  define gm where "gm = guardMetrics v"
  define ug where "ug = uniqueGuards v"
  define gm1 where "gm1 = (if \<not> truthy_at gm k then define_own gm k g0 else gm)"
  define f :: "GuardStats \<Rightarrow> GuardStats" where "f = (\<lambda>guard.
     let g1 = guard\<lparr> activities := activities guard + 1 \<rparr>
     in if date_gt (new_Date h (Date_Time a)) (new_Date h (lastActivity g1))
        then g1\<lparr> lastActivity := Date_Time a \<rparr> else g1)"
  have f: "\<And>g. guard_id (f g) = guard_id g \<and> activities (f g) = activities g + 1"
    by (simp add: f_def Let_def)
  have tg: "guardMetrics (track_guard h a v) = modify_own gm1 k f"
    "uniqueGuards (track_guard h a v) = Set_add ug k"
    by (simp_all add: track_guard_def Let_def gm1_def k_def g0_def f_def gm_def ug_def)
  from ok have inv: "distinct ug" "set ug = set (observed pre)"
    "map fst gm = filter (\<lambda>k. \<not> inherited k) ug"
    "\<And>p. p \<in> set gm \<Longrightarrow> guard_id (snd p) = fst p \<and> activities (snd p) = length (guard_rows (fst p) pre)"
    by (simp_all add: counts_ok_def gm_def ug_def)
  have obs: "observed (pre @ [a]) = observed pre @ [k]" using a by (simp add: observed_snoc k_def)
  have own_iff: "own gm k \<noteq> None \<longleftrightarrow> k \<in> set ug \<and> \<not> inherited k"
  proof -
    have "own gm k \<noteq> None \<longleftrightarrow> k \<in> set (map fst gm)"
      by (simp add: own_def map_of_eq_None_iff)
    then show ?thesis by (simp add: inv(3))
  qed
  have keys1: "map fst gm1 = filter (\<lambda>k. \<not> inherited k) (Set_add ug k)"
  proof (cases "truthy_at gm k")
    case True
    then have "inherited k \<or> k \<in> set ug" using own_iff by (auto simp: truthy_at_def)
    then show ?thesis using True by (auto simp: gm1_def inv(3) Set_add_def)
  next
    case False
    then have "\<not> inherited k" "k \<notin> set ug" using own_iff by (auto simp: truthy_at_def)
    then show ?thesis using False by (simp add: gm1_def inv(3) Set_add_def define_own_def)
  qed
  have entries1: "guard_id (snd q) = fst q
       \<and> activities (if fst q = k then f (snd q) else snd q) = length (guard_rows (fst q) (pre @ [a]))"
    if q: "q \<in> set gm1" for q
  proof (cases "q \<in> set gm")
    case True
    from inv(4) [OF True] show ?thesis using a f by (auto simp: guard_rows_snoc k_def)
  next
    case False
    with q have new: "\<not> truthy_at gm k" "q = (k, g0)"
      by (auto simp: gm1_def define_own_def split: if_splits)
    then have "k \<notin> set ug" using own_iff by (auto simp: truthy_at_def)
    then have "guard_rows k pre = []" using a inv(2) by (intro guard_rows_unobserved) (simp_all add: k_def)
    then show ?thesis using new(2) a f by (simp add: guard_rows_snoc g0_def k_def)
  qed
  show ?thesis
    unfolding counts_ok_def tg
  proof (intro conjI)
    show "distinct (Set_add ug k)" using inv(1) by (simp add: Set_add_def)
    show "set (Set_add ug k) = set (observed (pre @ [a]))"
      using inv(2) by (auto simp: Set_add_def obs)
    show "map fst (modify_own gm1 k f) = filter (\<lambda>k. \<not> inherited k) (Set_add ug k)"
      by (simp add: keys1)
    show "\<forall>p \<in> set (modify_own gm1 k f).
            guard_id (snd p) = fst p \<and> activities (snd p) = length (guard_rows (fst p) (pre @ [a]))"
    proof
      fix p assume "p \<in> set (modify_own gm1 k f)"
      then obtain q where q: "q \<in> set gm1"
        and p: "p = (if fst q = k then (fst q, f (snd q)) else (fst q, snd q))"
        by (auto simp: modify_own_def split: if_splits)
      from entries1 [OF q] f show "guard_id (snd p) = fst p
           \<and> activities (snd p) = length (guard_rows (fst p) (pre @ [a]))"
        by (auto simp: p)
    qed
  qed
qed

lemma counts_ok_step:
  assumes ok: "counts_ok pre u" and step: "activity_step h u a = Inr u'"
  shows "counts_ok (pre @ [a]) u'"
proof (cases "Date_Time a = []")
  case True
  with step have "u' = u" by (simp add: activity_step_def)
  with ok True show ?thesis by (intro counts_ok_snoc_no_guard [OF ok]) simp_all
next
  case False
  from activity_step_Inr [OF step False] obtain hr where
    u': "u' = process_location_accuracy hr a
                (if ActivityRecord.Service_Number a \<noteq> []
                 then track_guard h a (u\<lparr> hourlyData := (hourlyData u)
                         [hr := (hourlyData u ! hr)\<lparr> count := count (hourlyData u ! hr) + 1 \<rparr>] \<rparr>)
                 else u\<lparr> hourlyData := (hourlyData u)
                         [hr := (hourlyData u ! hr)\<lparr> count := count (hourlyData u ! hr) + 1 \<rparr>] \<rparr>)"
    by blast
  define u1 where "u1 = u\<lparr> hourlyData := (hourlyData u)
                         [hr := (hourlyData u ! hr)\<lparr> count := count (hourlyData u ! hr) + 1 \<rparr>] \<rparr>"
  have ok1: "counts_ok pre u1" using ok by (simp add: u1_def counts_ok_def)
  have "counts_ok (pre @ [a])
          (if ActivityRecord.Service_Number a \<noteq> [] then track_guard h a u1 else u1)"
  proof (cases "ActivityRecord.Service_Number a = []")
    case True
    then show ?thesis using counts_ok_snoc_no_guard [OF ok1, of a u1] by simp
  next
    case sn: False
    then show ?thesis using counts_ok_track_guard [OF ok1 False sn] by simp
  qed
  then show ?thesis unfolding u' u1_def [symmetric] by (rule counts_ok_process_location_accuracy)
qed

lemma counts_ok_forEach:
  assumes "activity_forEach h initial_activity_vars data = Inr v"
  shows "counts_ok data v"
proof (rule activity_forEach_invariant [OF assms, where I = counts_ok])
  show "counts_ok [] initial_activity_vars"
    by (simp add: counts_ok_def initial_activity_vars_def observed_def)
qed (rule counts_ok_step)

lemma length_Object_values [simp]: "length (Object_values obj) = length obj"
  by (simp add: Object_values_def sum_length_filter_compl)

lemma distinct_ids_Object_values:
  assumes d: "distinct (map fst obj)" and ids: "\<forall>p \<in> set obj. f (snd p) = fst p"
  shows "distinct (map f (Object_values obj))"
proof -
  define A where "A = sort_key (\<lambda>p. digits_value 10 (fst p)) (filter (\<lambda>p. is_array_index (fst p)) obj)"
  define B where "B = filter (\<lambda>p. \<not> is_array_index (fst p)) obj"
  have setA: "set A = {p \<in> set obj. is_array_index (fst p)}" by (auto simp: A_def)
  have setB: "set B = {p \<in> set obj. \<not> is_array_index (fst p)}" by (auto simp: B_def)
  have inj: "inj_on fst (set obj)" and dobj: "distinct obj"
    using d by (simp_all add: distinct_map)
  have dA: "distinct (map fst A)"
  proof -
    have "distinct A" using dobj by (simp add: A_def)
    moreover have "inj_on fst (set A)" by (rule inj_on_subset [OF inj]) (auto simp: setA)
    ultimately show ?thesis by (simp add: distinct_map)
  qed
  have dB: "distinct (map fst B)" using d by (simp add: B_def distinct_map_filter)
  have disj: "set (map fst A) \<inter> set (map fst B) = {}" by (auto simp: setA setB)
  have "map f (Object_values obj) = map fst A @ map fst B"
    using ids by (auto simp: Object_values_def A_def B_def)
  with dA dB disj show ?thesis by simp
qed

text \<open>
  Where no service number of the input is a name inherited from \<open>Object.prototype\<close>, and
  the aggregator returns: one GuardStat per distinct non-empty service number observed, the
  distinct-guard metric counts them, and each activity count is the number of records with
  a non-empty timestamp that carry the guard's service number.
\<close>

lemma guards_without_inherited_names:
  assumes run: "processActivityData h data s = Inr s'"
    and names: "\<forall>a \<in> set data. \<not> inherited (ActivityRecord.Service_Number a)"
  shows "distinct (map guard_id (guardStats s'))"
    and "set (map guard_id (guardStats s')) = set (observed data)"
    and "totalGuards (metrics s') = length (guardStats s')"
    and "\<forall>g \<in> set (guardStats s'). activities g = length (guard_rows (guard_id g) data)"
proof -
  from run obtain v where v: "activity_forEach h initial_activity_vars data = Inr v"
    and gs: "guardStats s' =
           map (\<lambda>guard. guard\<lparr> status :=
                   (if 0 < GuardStats.locationIssues guard \<or> \<not> GuardStats.onTime guard
                    then warning else normal) \<rparr>)
               (Object_values (guardMetrics v))"
    and tg: "totalGuards (metrics s') = length (uniqueGuards v)"
    by (auto simp: processActivityData_def split: sum.splits)
  from counts_ok_forEach [OF v] have inv: "distinct (uniqueGuards v)"
    "set (uniqueGuards v) = set (observed data)"
    "map fst (guardMetrics v) = filter (\<lambda>k. \<not> inherited k) (uniqueGuards v)"
    "\<forall>p \<in> set (guardMetrics v).
        guard_id (snd p) = fst p \<and> activities (snd p) = length (guard_rows (fst p) data)"
    by (simp_all add: counts_ok_def)
  have "\<forall>k \<in> set (uniqueGuards v). \<not> inherited k"
    using names by (auto simp: inv(2) observed_def)
  then have keys: "map fst (guardMetrics v) = uniqueGuards v"
    by (simp add: inv(3) filter_id_conv)
  have ids: "map guard_id (guardStats s') = map guard_id (Object_values (guardMetrics v))"
    by (simp add: gs comp_def)
  show "distinct (map guard_id (guardStats s'))"
    unfolding ids using inv(1,4) by (intro distinct_ids_Object_values) (simp_all add: keys)
  have "set (map guard_id (Object_values (guardMetrics v))) = set (map fst (guardMetrics v))"
    using inv(4) by (force simp: set_Object_values)
  then show "set (map guard_id (guardStats s')) = set (observed data)"
    by (simp only: ids keys inv(2))
  have "length (guardStats s') = length (map fst (guardMetrics v))" by (simp add: gs)
  then show "totalGuards (metrics s') = length (guardStats s')" by (simp only: tg keys)
  show "\<forall>g \<in> set (guardStats s'). activities g = length (guard_rows (guard_id g) data)"
    using inv(4) by (auto simp: gs set_Object_values)
qed

section \<open>The record filter\<close>

lemma kept_iff_passes_filter:
  "(if field = [] then False
    else let d = new_Date h field
         in if lower \<noteq> None \<and> date_lt d (the lower) then False
            else if upper \<noteq> None \<and> date_gt d (the upper) then False
            else True)
   = passes_filter h lower upper field"
  by (auto simp: passes_filter_def within_bounds_def new_Date_def date_lt_def date_gt_def Let_def
      split: option.splits)

lemma filteredActivityData_eq:
  "filteredActivityData h s =
     filter (\<lambda>a. passes_filter h (startDate s) (endDate s) (Date_Time a)) (activityDataRaw s)"
  unfolding filteredActivityData_def by (simp only: kept_iff_passes_filter)

lemma filteredAttendanceData_eq:
  "filteredAttendanceData h s =
     filter (\<lambda>r. passes_filter h (startDate s) (endDate s) (Login_Date r)) (attendanceDataRaw s)"
  unfolding filteredAttendanceData_def by (simp only: kept_iff_passes_filter)

section \<open>The effect\<close>







section \<open>Running the model on the samples\<close>

lemmas model_defs =
  processActivityData_def initial_activity_vars_def activity_step_def getHours_def new_Date_def
  track_guard_def process_location_accuracy_def match_digits_def is_digit_def parseInt_def
  digit_val_def digits_value_def is_white_space_def truthy_at_def own_def inherited_def
  Object_prototype_names_def define_own_def modify_own_def Object_values_def is_array_index_def
  Set_add_def date_gt_def date_lt_def Num_def Let_def
  processAttendanceData_def attendance_forEach_def attendance_step_def initial_attendance_vars_def
  calculate_coverage_def filteredActivityData_def filteredAttendanceData_def process_effect_def
  initial_SecurityDashboard_def utc_host_def sample_activity_def sample_attendance_def

lemma to_number_half [simp]: "to_number (1 / 2) = Fin (1 / 2)"
proof -
  have "fl_rat (1 / 2) = 1 / 2" using fl_rat_exact [of 1 "- 1"] by (simp add: pow2_minus_one)
  then show ?thesis by (simp add: to_number_Fin)
qed

lemma three_posts_locationStats:
  "locationStats (processAttendanceData three_posts initial_SecurityDashboard) =
     [\<lparr> LocationStats.name = ''Gate-1'', totalScans = 2, accuracyIssues = 1, avgAccuracy = 0,
         coverageRate = Fin 50 \<rparr>,
      \<lparr> LocationStats.name = ''Gate-2'', totalScans = 1, accuracyIssues = 0, avgAccuracy = 0,
         coverageRate = Fin 100 \<rparr>,
      \<lparr> LocationStats.name = ''Gate-3'', totalScans = 1, accuracyIssues = 1, avgAccuracy = 0,
         coverageRate = Fin 0 \<rparr>]"
  by (simp add: three_posts_def model_defs floor_numeral_div)







lemma two_readings_run:
  "\<exists>s'. processActivityData utc_host two_readings initial_SecurityDashboard = Inr s'
        \<and> guardStats s' = [guard_1001] \<and> avgLocationAccuracy (metrics s') = Fin 50"
  by (simp add: two_readings_def guard_1001_def model_defs floor_numeral_div)





text \<open>
  A signed miss count is taken as it is: nothing forces the parsed value to be non-negative.
\<close>

lemma negative_miss_count:
  "Metrics.missedScans (metrics (processAttendanceData
      [sample_attendance ''2024-01-01T14:00:00Z'' ''Gate-1'' ''On-time'' ''-3'']
      initial_SecurityDashboard)) = Fin (- 3)"
proof -
  have "to_number (- 3) = Fin (- 3)" using to_number_of_int [of "- 3"] by simp
  then show ?thesis by (simp add: model_defs)
qed

section \<open>Claims that hold of the code\<close>

text \<open>
  C9. For every guard in the output of the activity aggregator, the final status is
  \<open>warning\<close> exactly when the guard's count of location issues is positive or its on-time
  flag is false, and \<open>normal\<close> otherwise; and the on-time flag is the one derived from the
  time-accuracy field of the first activity seen for that guard, whatever the later records
  say.
\<close>

theorem C9_guard_status:
  assumes "processActivityData h data s = Inr s'" and "g \<in> set (guardStats s')"
  shows "status g = (if 0 < GuardStats.locationIssues g \<or> \<not> GuardStats.onTime g
                     then warning else normal)
       \<and> (\<exists>a. first_seen data (guard_id g) = Some a
              \<and> GuardStats.onTime g = (Time_Accuracy a = ''On Time''))"
proof -
  from processActivityData_Inr [OF assms(1)] obtain v where
    v: "activity_forEach h initial_activity_vars data = Inr v"
    and gs: "guardStats s' =
           map (\<lambda>guard. guard\<lparr> status :=
                   (if 0 < GuardStats.locationIssues guard \<or> \<not> GuardStats.onTime guard
                    then warning else normal) \<rparr>)
               (Object_values (guardMetrics v))"
    by blast
  from assms(2) obtain p where p: "p \<in> set (guardMetrics v)"
    and g: "g = (snd p)\<lparr> status :=
                   (if 0 < GuardStats.locationIssues (snd p) \<or> \<not> GuardStats.onTime (snd p)
                    then warning else normal) \<rparr>"
    unfolding gs by (auto simp: set_Object_values)
  from guards_ok_forEach [OF v] p obtain a where
    a: "guard_id (snd p) = fst p" "first_seen data (fst p) = Some a"
       "GuardStats.onTime (snd p) = (Time_Accuracy a = ''On Time'')"
    unfolding guards_ok_def by blast
  have "status g = (if 0 < GuardStats.locationIssues g \<or> \<not> GuardStats.onTime g
                     then warning else normal)"
    by (simp add: g)
  moreover have "first_seen data (guard_id g) = Some a" by (simp add: g a(1,2))
  moreover have "GuardStats.onTime g = (Time_Accuracy a = ''On Time'')" by (simp add: g a(3))
  ultimately show ?thesis by blast
qed

theorem C9_witness:
  "(case processActivityData utc_host two_readings initial_SecurityDashboard of
      Inl e \<Rightarrow> False
    | Inr s' \<Rightarrow> guard_1001 \<in> set (guardStats s'))
   \<and> status guard_1001 = warning
   \<and> first_seen two_readings ''1001''
       = Some (sample_activity ''1001'' ''2024-01-01T14:00:00Z'' ''10m'' ''On Time'')
   \<and> GuardStats.onTime guard_1001"
proof -
  from two_readings_run obtain s' where
    s': "processActivityData utc_host two_readings initial_SecurityDashboard = Inr s'"
    and g: "guard_1001 \<in> set (guardStats s')" by auto
  from C9_guard_status [OF s' g] obtain a where
    st: "status guard_1001 = (if 0 < GuardStats.locationIssues guard_1001 \<or> \<not> GuardStats.onTime guard_1001
                              then warning else normal)"
    and a: "first_seen two_readings (guard_id guard_1001) = Some a"
       "GuardStats.onTime guard_1001 = (Time_Accuracy a = ''On Time'')" by blast
  have fs: "first_seen two_readings ''1001''
             = Some (sample_activity ''1001'' ''2024-01-01T14:00:00Z'' ''10m'' ''On Time'')"
    by (simp add: first_seen_def two_readings_def sample_activity_def)
  from a fs have "GuardStats.onTime guard_1001" by (simp add: guard_1001_def sample_activity_def)
  moreover from st have "status guard_1001 = warning" by (simp add: guard_1001_def)
  ultimately show ?thesis using s' g fs by simp
qed

text \<open>
  C10. Every LocationStat in the output of the attendance aggregator has at least one scan:
  an entry is created in the step that counts its first scan. So the divisor of the
  coverage rate, \<open>totalScans\<close> read as a Number, is never zero, and no coverage rate is NaN.
\<close>

theorem C10_totalScans_positive:
  assumes "l \<in> set (locationStats (processAttendanceData data s))"
  shows "1 \<le> totalScans l \<and> Num (totalScans l) \<noteq> Fin 0 \<and> coverageRate l \<noteq> NaN"
proof -
  from locationStats_processAttendanceData [OF assms]
  obtain l0 where l0: "scans_ok l0" "l = calculate_coverage l0" by blast
  then have t: "1 \<le> totalScans l0" by (simp add: scans_ok_def)
  have "js_div (Fin (of_nat (totalScans l0) - of_nat (accuracyIssues l0))) (Num (totalScans l0)) \<noteq> NaN"
    using t by (simp add: Num_def)
  then have "coverageRate (calculate_coverage l0) \<noteq> NaN"
    by (simp add: calculate_coverage_def js_mul_100_not_NaN Math_round_not_NaN)
  with t l0(2) show ?thesis by (simp add: Num_def)
qed

theorem C10_witness:
  "\<lparr> LocationStats.name = ''Gate-3'', totalScans = 1, accuracyIssues = 1, avgAccuracy = 0,
      coverageRate = Fin 0 \<rparr>
     \<in> set (locationStats (processAttendanceData three_posts initial_SecurityDashboard))
   \<and> Num 1 \<noteq> Fin 0"
proof -
  let ?l = "\<lparr> LocationStats.name = ''Gate-3'', totalScans = 1, accuracyIssues = 1,
                avgAccuracy = 0, coverageRate = Fin 0 \<rparr>"
  have mem: "?l \<in> set (locationStats (processAttendanceData three_posts initial_SecurityDashboard))"
    by (simp add: three_posts_locationStats)
  from C10_totalScans_positive [OF mem] have "Num (totalScans ?l) \<noteq> Fin 0" by blast
  with mem show ?thesis by simp
qed

section \<open>Claims that hold once amended\<close>










section \<open>Where the code departs from the specification\<close>

text \<open>
  C1. The specification has the activity aggregator skip a record whose timestamp is not
  empty but does not parse, so that the 24 bucket counts add up to the number of records
  with a parseable timestamp. The loop only skips the empty timestamp. On a timestamp that
  does not parse, \<open>getHours()\<close> is NaN, \<open>hourlyData[NaN]\<close> is \<open>undefined\<close>, and the
  increment of its \<open>count\<close> throws: with one good record and one such record the
  aggregator publishes nothing at all. (Every input with such a record throws, lemma
  \<open>processActivityData_throws\<close>; on the other inputs the aggregator returns and the
  counts do add up, lemmas \<open>processActivityData_total\<close> and \<open>bucket_counts_sum\<close>.)
\<close>

theorem C1_unparseable_timestamp_throws:
  "processActivityData utc_host
     [sample_activity ''G1'' ''2024-01-01T14:00:00Z'' ''10m'' ''On Time'',
      sample_activity ''G1'' ''not a date'' ''10m'' ''On Time'']
     initial_SecurityDashboard = Inl TypeError"
  by (simp add: model_defs)

text \<open>
  C3. The specification has the record filter drop every record whose date field does not
  parse. Both filters only test the field for emptiness: an invalid date compares false
  with either bound, so the record is kept, here with both bounds set. (What the filters
  keep, in the order of the input, is stated by \<open>filteredActivityData_eq\<close> and
  \<open>filteredAttendanceData_eq\<close>: the empty field is dropped, a field that parses is kept
  within the bounds, both ends included.)
\<close>

theorem C3_unparseable_date_passes_filter:
  "filteredActivityData utc_host
     (initial_SecurityDashboard
        \<lparr> startDate := Some (Some 1704117600000), endDate := Some (Some 1704187800000),
          activityDataRaw := [sample_activity ''G1'' ''not a date'' ''10m'' ''On Time''] \<rparr>)
   = [sample_activity ''G1'' ''not a date'' ''10m'' ''On Time'']
   \<and> filteredAttendanceData utc_host
     (initial_SecurityDashboard
        \<lparr> startDate := Some (Some 1704117600000), endDate := Some (Some 1704187800000),
          attendanceDataRaw := [sample_attendance ''not a date'' ''Gate-1'' ''On-time'' ''0''] \<rparr>)
   = [sample_attendance ''not a date'' ''Gate-1'' ''On-time'' ''0'']"
  by (simp add: model_defs)

text \<open>
  C4. With no shift counted, the on-time rate is \<open>Math.round((0 / 0) * 100)\<close>, which is
  NaN and not the fallback 0: on an empty attendance input, and through the effect when
  the date range leaves no attendance record (the only one is dated after the upper bound).
\<close>

theorem C4_onTimeRate_is_NaN:
  "onTimeRate (metrics (processAttendanceData [] initial_SecurityDashboard)) = NaN
   \<and> (case process_effect utc_host
           (initial_SecurityDashboard
              \<lparr> endDate := Some (Some 1704187800000),
                activityDataRaw := [sample_activity ''G1'' ''2024-01-01T14:00:00Z'' ''10m'' ''On Time''],
                attendanceDataRaw :=
                  [sample_attendance ''2024-01-03T09:00:00Z'' ''Gate-1'' ''On-time'' ''0''] \<rparr>)
         of Inl e \<Rightarrow> False
          | Inr s \<Rightarrow> onTimeRate (metrics s) = NaN)"
  by (simp add: model_defs)

text \<open>
  C6. The miss count is read with \<open>parseInt(record['No of Miss'] || '0')\<close>: the default 0
  covers the empty field only. A field with no leading digit parses to NaN, and the sum of
  missed scans is NaN from then on, whatever the other records say. (Nor is the parsed
  value kept non-negative, lemma \<open>negative_miss_count\<close>.)
\<close>

theorem C6_unparseable_miss_count_gives_NaN:
  "Metrics.missedScans (metrics (processAttendanceData
      [sample_attendance ''2024-01-01T14:00:00Z'' ''Gate-1'' ''On-time'' ''2'',
       sample_attendance ''2024-01-02T09:30:00Z'' ''Gate-1'' ''On-time'' ''n/a'']
      initial_SecurityDashboard)) = NaN"
  by (simp add: model_defs)

text \<open>
  C7. A service number that names a property of \<open>Object.prototype\<close> is counted in the set
  of distinct guards, but \<open>guardMetrics[id]\<close> already finds the inherited property, so no
  GuardStat is created for it: one distinct guard, no guard in the list. (On inputs without
  such a service number the claim holds whenever the aggregator returns, lemma
  \<open>guards_without_inherited_names\<close>.)
\<close>

theorem C7_inherited_key_has_no_GuardStat:
  "(case processActivityData utc_host
           [sample_activity ''constructor'' ''2024-01-01T14:00:00Z'' ''10m'' ''On Time'']
           initial_SecurityDashboard
    of Inl e \<Rightarrow> False
     | Inr s \<Rightarrow> guardStats s = [] \<and> totalGuards (metrics s) = 1)"
  by (simp add: model_defs)

end
